theory Spec2Isabelle
  imports Main "HOL-Library.AList" "HOL-Library.Sublist" "HOL-Library.Word"
begin

section \<open>Errors\<close>

text \<open>
  Every error return and every panic of the modelled Go code is a value of this type.
  \<open>Wrapped msg e\<close> is \<open>errors.Wrap(e, msg)\<close> (also \<open>clues.Wrap\<close>, \<open>errors.WithStack\<close>):
  the wrapped error stays reachable for \<open>errors.Is\<close>. \<open>PanicNilDereference\<close> is the
  run-time panic of dereferencing a nil pointer or calling a method on a nil interface.
  \<open>External msg\<close> is an error produced by code outside the modelled files.
\<close>

datatype error =
    ErrExistingMapping
  | ErrJSON
  | ErrNoParentReference
  | ErrEmptyName
  | ErrPrevCollectionNotFound
  | ErrRemovingFromPrevCollection
  | ErrItemTypeNotSupported
  | ErrUnrecognizedSource
  | PanicNilDereference
  | External string
  | Wrapped string error

fun errors_Is :: "error \<Rightarrow> error \<Rightarrow> bool" where
  "errors_Is (Wrapped msg e) target = (Wrapped msg e = target \<or> errors_Is e target)"
| "errors_Is e target = (e = target)"

section \<open>Go maps and strings\<close>

text \<open>
  A Go map that the code ranges over is an association list: \<open>map_of\<close> is the lookup,
  \<open>AList.update\<close> the assignment \<open>m[k] = v\<close>, \<open>AList.delete\<close> the builtin \<open>delete(m, k)\<close>,
  and a \<open>range\<close> loop is a recursion over the entries. Go leaves the iteration order
  unspecified; every theorem below holds for every list, hence for every order.
\<close>

type_synonym ('k, 'v) gomap = "('k \<times> 'v) list"

definition keys :: "('k, 'v) gomap \<Rightarrow> 'k set" where
  "keys m = fst ` set m"

text \<open>\<open>m[k]\<close> read as a value: the zero value (the empty string, the nil map) when the
  key is absent.\<close>

definition index_or_zero :: "('k, 'a list) gomap \<Rightarrow> 'k \<Rightarrow> 'a list" where
  "index_or_zero m k = (case map_of m k of None \<Rightarrow> [] | Some v \<Rightarrow> v)"

text \<open>\<open>maps.Copy(dst, src)\<close>: every entry of \<open>src\<close> is assigned into \<open>dst\<close>.\<close>

fun maps_Copy :: "('k, 'v) gomap \<Rightarrow> ('k, 'v) gomap \<Rightarrow> ('k, 'v) gomap" where
  "maps_Copy dst [] = dst"
| "maps_Copy dst ((k, v) # src) = maps_Copy (AList.update k v dst) src"

text \<open>\<open>strings.HasPrefix\<close> is \<^const>\<open>prefix\<close>. \<open>strings.Replace(s, old, new, 1)\<close> replaces the
  first occurrence of \<open>old\<close> in \<open>s\<close>, scanning from the left.\<close>

fun strings_Replace1 :: "string \<Rightarrow> string \<Rightarrow> string \<Rightarrow> string" where
  "strings_Replace1 s old new =
     (if prefix old s then new @ drop (length old) s
      else (case s of [] \<Rightarrow> [] | c # cs \<Rightarrow> c # strings_Replace1 cs old new))"

declare strings_Replace1.simps [simp del]

section \<open>Metadata codec: deserializeMap and deserializeMetadata\<close>

text \<open>
  A reader handed to \<open>deserializeMap\<close> is modelled by what \<open>json.NewDecoder(reader).Decode\<close>
  makes of its bytes at the target type: a failure, or the decoded Go map.
\<close>

datatype 'v reader = DecodeFailure | Decoded "(string, 'v) gomap"

text \<open>The loop \<open>for k := range tmp\<close> that looks for a key already in \<open>alreadyFound\<close>.\<close>

fun duplicate :: "(string, 'v) gomap \<Rightarrow> (string, 'v) gomap \<Rightarrow> bool" where
  "duplicate [] alreadyFound = False"
| "duplicate ((k, v) # tmp) alreadyFound =
     (if map_of alreadyFound k \<noteq> None then True else duplicate tmp alreadyFound)"

text \<open>
  \<open>deserializeMap\<close> mutates \<open>alreadyFound\<close> in place and returns an error or nil; the
  model returns the error (if any) together with the map as the caller sees it afterwards.
\<close>

definition deserializeMap ::
  "'v reader \<Rightarrow> (string, 'v) gomap \<Rightarrow> error option \<times> (string, 'v) gomap" where
  "deserializeMap rd alreadyFound =
     (case rd of
        DecodeFailure \<Rightarrow> (Some (Wrapped ''deserializing file contents'' ErrJSON), alreadyFound)
      | Decoded tmp \<Rightarrow>
          if duplicate tmp alreadyFound then (Some (Wrapped [] ErrExistingMapping), alreadyFound)
          else (None, maps_Copy alreadyFound tmp))"

text \<open>Modelled from the spec: the names of the two metadata files (the constants
  \<open>graph.PreviousPathFileName\<close> and \<open>graph.DeltaURLsFileName\<close> are declared outside the
  modelled files; the spec names the files \<open>previousPath.json\<close> and \<open>deltaURLs.json\<close>).\<close>

definition PreviousPathFileName :: string where
  "PreviousPathFileName = ''previousPath.json''"

definition DeltaURLsFileName :: string where
  "DeltaURLsFileName = ''deltaURLs.json''"

text \<open>
  One item of a metadata collection: its name and what decoding its bytes yields at each
  of the two map types \<open>deserializeMetadata\<close> may ask for.
\<close>

record MetadataItem =
  UUID :: string
  asFolders :: "(string, string) gomap reader"
  asDeltas :: "string reader"

type_synonym deltas = "(string, string) gomap"
type_synonym folders = "(string, (string, string) gomap) gomap"

text \<open>
  The inner loop over the items of one collection. Cancellation of the context is not
  modelled. An error that is not \<open>errExistingMapping\<close> is logged and the loop goes on.
\<close>

fun read_items :: "MetadataItem list \<Rightarrow> deltas \<Rightarrow> folders \<Rightarrow> error + (deltas \<times> folders)" where
  "read_items [] prevDeltas prevFolders = Inr (prevDeltas, prevFolders)"
| "read_items (item # items) prevDeltas prevFolders =
     (if UUID item = PreviousPathFileName then
        (case deserializeMap (asFolders item) prevFolders of
           (None, pf) \<Rightarrow> read_items items prevDeltas pf
         | (Some err, pf) \<Rightarrow>
             if errors_Is err ErrExistingMapping
             then Inl (Wrapped ''deserializing metadata file'' err)
             else read_items items prevDeltas pf)
      else if UUID item = DeltaURLsFileName then
        (case deserializeMap (asDeltas item) prevDeltas of
           (None, pd) \<Rightarrow> read_items items pd prevFolders
         | (Some err, pd) \<Rightarrow>
             if errors_Is err ErrExistingMapping
             then Inl (Wrapped ''deserializing metadata file'' err)
             else read_items items pd prevFolders)
      else read_items items prevDeltas prevFolders)"

text \<open>
  The two clean-up loops. Each ranges over a map and deletes only the key it is visiting,
  so the entries visited are those the map held when the loop started: the first argument.
\<close>

fun remove_partial_deltas :: "(string \<times> string) list \<Rightarrow> deltas \<Rightarrow> folders \<Rightarrow> deltas \<times> folders" where
  "remove_partial_deltas [] prevDeltas prevFolders = (prevDeltas, prevFolders)"
| "remove_partial_deltas ((k, v) # es) prevDeltas prevFolders =
     (let pd1 = (if length v = 0 then AList.delete k prevDeltas else prevDeltas);
          pf1 = (if length v = 0 then AList.delete k prevFolders else prevFolders);
          pd2 = (if map_of pf1 k = None then AList.delete k pd1 else pd1)
      in remove_partial_deltas es pd2 pf1)"

fun remove_partial_folders ::
  "(string \<times> (string, string) gomap) list \<Rightarrow> folders \<Rightarrow> deltas \<Rightarrow> folders" where
  "remove_partial_folders [] prevFolders prevDeltas = prevFolders"
| "remove_partial_folders ((k, v) # es) prevFolders prevDeltas =
     remove_partial_folders es
       (if map_of prevDeltas k = None then AList.delete k prevFolders else prevFolders)
       prevDeltas"

fun deserialize_cols :: "MetadataItem list list \<Rightarrow> deltas \<Rightarrow> folders \<Rightarrow> error + (deltas \<times> folders)" where
  "deserialize_cols [] prevDeltas prevFolders = Inr (prevDeltas, prevFolders)"
| "deserialize_cols (col # cols) prevDeltas prevFolders =
     (case read_items col prevDeltas prevFolders of
        Inl e \<Rightarrow> Inl e
      | Inr (pd, pf) \<Rightarrow>
          (case remove_partial_deltas pd pd pf of
             (pd', pf') \<Rightarrow> deserialize_cols cols pd' (remove_partial_folders pf' pf' pd')))"

definition deserializeMetadata :: "MetadataItem list list \<Rightarrow> error + (deltas \<times> folders)" where
  "deserializeMetadata cols = deserialize_cols cols [] []"

section \<open>The path package, as far as the drive code uses it\<close>

datatype driveSource = unknownDriveSource | OneDriveSource | SharePointSource

datatype CategoryType = UnknownCategory | FilesCategory | LibrariesCategory

datatype CollectionState = NewState | NotMovedState | MovedState | DeletedState

text \<open>
  Package \<open>pkg/path\<close> is not among the modelled files, so its functions are parameters:
  a value of \<open>'p path_pkg\<close> gives, for a type \<open>'p\<close> of non-nil \<open>path.Path\<close> values, the
  methods and functions that \<open>collections.go\<close> calls. A \<open>path.Path\<close> variable that may be
  nil is a \<open>'p option\<close>. \<open>UpdateParent p prev cur\<close> returns the rewritten path when the Go
  method reports \<open>true\<close> and \<open>None\<close> when it reports \<open>false\<close>.
  \<open>ToDataLayerOneDrivePath elems\<close> and \<open>ToDataLayerSharePointPath elems\<close> stand for
  \<open>path.Builder{}.Append(elems...)\<close> followed by the method of that name.
\<close>

record 'p path_pkg =
  String :: "'p \<Rightarrow> string"
  Append :: "'p \<Rightarrow> string \<Rightarrow> bool \<Rightarrow> error + 'p"
  Category :: "'p \<Rightarrow> CategoryType"
  UpdateParent :: "'p \<Rightarrow> 'p \<Rightarrow> 'p \<Rightarrow> 'p option"
  FromDataLayerPath :: "string \<Rightarrow> bool \<Rightarrow> error + 'p"
  ToOneDrivePath :: "'p \<Rightarrow> error + string list"
  GetDriveFolderPath :: "'p \<Rightarrow> error + string"
  ToDataLayerOneDrivePath :: "string list \<Rightarrow> string \<Rightarrow> string \<Rightarrow> bool \<Rightarrow> error + 'p"
  ToDataLayerSharePointPath ::
    "string list \<Rightarrow> string \<Rightarrow> string \<Rightarrow> CategoryType \<Rightarrow> bool \<Rightarrow> error + 'p"

text \<open>Modelled from the spec: \<open>data.StateOf\<close> (package \<open>internal/data\<close> is not among the
  modelled files). The spec: collection state is a pure function of (prevPath, fullPath):
  absent prev is New; equal is NotMoved; different non-nil is Moved; absent fullPath is
  Deleted. Paths are compared by their string form.\<close>

definition StateOf :: "'p path_pkg \<Rightarrow> 'p option \<Rightarrow> 'p option \<Rightarrow> CollectionState" where
  "StateOf pk prev cur =
     (case cur of
        None \<Rightarrow> DeletedState
      | Some c \<Rightarrow>
          (case prev of
             None \<Rightarrow> NewState
           | Some p \<Rightarrow> if String pk p = String pk c then NotMovedState else MovedState))"

text \<open>\<open>strings.Split(p, "/")\<close>.\<close>

fun strings_Split :: "string \<Rightarrow> string list" where
  "strings_Split [] = [[]]"
| "strings_Split (c # cs) =
     (if c = CHR ''/'' then [] # strings_Split cs
      else (case strings_Split cs of [] \<Rightarrow> [[c]] | w # ws \<Rightarrow> (c # w) # ws))"

definition GetCanonicalPath ::
  "'p path_pkg \<Rightarrow> string \<Rightarrow> string \<Rightarrow> string \<Rightarrow> driveSource \<Rightarrow> error + 'p" where
  "GetCanonicalPath pk p tenant' resourceOwner' source' =
     (case source' of
        OneDriveSource \<Rightarrow>
          (case ToDataLayerOneDrivePath pk (strings_Split p) tenant' resourceOwner' False of
             Inl e \<Rightarrow> Inl (Wrapped ''converting to canonical path'' e)
           | Inr result \<Rightarrow> Inr result)
      | SharePointSource \<Rightarrow>
          (case ToDataLayerSharePointPath pk (strings_Split p) tenant' resourceOwner'
                  LibrariesCategory False of
             Inl e \<Rightarrow> Inl (Wrapped ''converting to canonical path'' e)
           | Inr result \<Rightarrow> Inr result)
      | unknownDriveSource \<Rightarrow> Inl ErrUnrecognizedSource)"

definition restrictedDirectory :: string where
  "restrictedDirectory = ''Site Pages''"

definition rootDrivePattern :: "string \<Rightarrow> string" where
  "rootDrivePattern driveID' = ''/drives/'' @ driveID' @ ''/root:''"

record folderMatcher =
  IsAny :: bool
  Matches :: "string \<Rightarrow> bool"

definition includePath :: "'p path_pkg \<Rightarrow> folderMatcher \<Rightarrow> 'p \<Rightarrow> bool" where
  "includePath pk m folderPath' =
     (case GetDriveFolderPath pk folderPath' of
        Inl e \<Rightarrow> True
      | Inr folderPathString \<Rightarrow>
          if length folderPathString = 0 \<and> IsAny m then True
          else Matches m folderPathString)"

definition shouldSkipDrive :: "'p path_pkg \<Rightarrow> 'p option \<Rightarrow> folderMatcher \<Rightarrow> string \<Rightarrow> bool" where
  "shouldSkipDrive pk drivePath m driveName =
     (case drivePath of
        None \<Rightarrow> False
      | Some dp \<Rightarrow>
          \<not> includePath pk m dp \<or>
          (Category pk dp = LibrariesCategory \<and> restrictedDirectory = driveName))"

section \<open>Drive items and collections\<close>

text \<open>
  \<open>models.DriveItemable\<close>, by its getters. A getter that returns a pointer to a string is
  an option; a facet getter (\<open>GetRoot\<close>, \<open>GetDeleted\<close>, \<open>GetFolder\<close>, \<open>GetPackage\<close>,
  \<open>GetFile\<close>) is \<open>True\<close> when it returns a non-nil facet.
\<close>

record ItemReference =
  ref_GetId :: "string option"
  ref_GetPath :: "string option"

record DriveItem =
  GetId :: "string option"
  GetName :: "string option"
  GetRoot :: bool
  GetParentReference :: "ItemReference option"
  GetDeleted :: bool
  GetFolder :: bool
  GetPackage :: bool
  GetFile :: bool

definition MetaFileSuffix :: string where
  "MetaFileSuffix = ''.meta''"

definition DataFileSuffix :: string where
  "DataFileSuffix = ''.data''"

text \<open>
  \<open>Collection\<close>: the fields that decide paths, state and membership. The HTTP client, the
  service handle, the status updater, the readers, the options and the data channel play
  no part in the functions modelled here.
\<close>

record 'p Collection =
  folderPath :: "'p option"
  driveItems :: "string \<rightharpoonup> DriveItem"
  coll_driveID :: string
  coll_source :: driveSource
  prevPath :: "'p option"
  state :: CollectionState
  doNotMergeItems :: bool

definition NewCollection ::
  "'p path_pkg \<Rightarrow> 'p option \<Rightarrow> 'p option \<Rightarrow> string \<Rightarrow> driveSource \<Rightarrow> bool \<Rightarrow> 'p Collection" where
  "NewCollection pk folderPath' prevPath' driveID' source' doNotMergeItems' =
     \<lparr> folderPath = folderPath',
       driveItems = Map.empty,
       coll_driveID = driveID',
       coll_source = source',
       prevPath = prevPath',
       state = StateOf pk prevPath' folderPath',
       doNotMergeItems = doNotMergeItems' \<rparr>"

text \<open>\<open>Add\<close> and \<open>Remove\<close> dereference \<open>item.GetId()\<close>: an item without an id panics.\<close>

definition Add :: "'p Collection \<Rightarrow> DriveItem \<Rightarrow> error + ('p Collection \<times> bool)" where
  "Add oc item =
     (case GetId item of
        None \<Rightarrow> Inl PanicNilDereference
      | Some itemID \<Rightarrow>
          Inr (oc\<lparr>driveItems := (driveItems oc)(itemID \<mapsto> item)\<rparr>, driveItems oc itemID = None))"

definition Remove :: "'p Collection \<Rightarrow> DriveItem \<Rightarrow> error + ('p Collection \<times> bool)" where
  "Remove oc item =
     (case GetId item of
        None \<Rightarrow> Inl PanicNilDereference
      | Some itemID \<Rightarrow>
          if driveItems oc itemID = None then Inr (oc, False)
          else Inr (oc\<lparr>driveItems := (driveItems oc)(itemID := None)\<rparr>, True))"

definition SetFullPath :: "'p path_pkg \<Rightarrow> 'p Collection \<Rightarrow> 'p \<Rightarrow> 'p Collection" where
  "SetFullPath pk oc curPath =
     oc\<lparr>folderPath := Some curPath, state := StateOf pk (prevPath oc) (Some curPath)\<rparr>"

section \<open>updatePath and updateCollectionPaths\<close>

text \<open>
  The loop of \<open>updatePath\<close> ranges over \<open>paths\<close> and assigns only to the key it is visiting,
  so every entry is read once, with the value it had before the loop.
\<close>

fun update_subtree :: "(string, string) gomap \<Rightarrow> string \<Rightarrow> string \<Rightarrow> (string, string) gomap" where
  "update_subtree [] oldPath newPath = []"
| "update_subtree ((folderID, p) # es) oldPath newPath =
     (if \<not> prefix oldPath p then (folderID, p) # update_subtree es oldPath newPath
      else (folderID, strings_Replace1 p oldPath newPath) # update_subtree es oldPath newPath)"

definition updatePath :: "(string, string) gomap \<Rightarrow> string \<Rightarrow> string \<Rightarrow> (string, string) gomap" where
  "updatePath paths itemID newPath =
     (let oldPath = index_or_zero paths itemID in
      if length oldPath = 0 then AList.update itemID newPath paths
      else if oldPath = newPath then paths
      else update_subtree paths oldPath newPath)"

text \<open>
  The loop of \<open>updateCollectionPaths\<close> over the other collections. Calling \<open>UpdateParent\<close>
  on the nil path of a collection without a current path panics. The collections are
  pointers, so the loop changes them in place.
\<close>

fun update_children ::
  "'p path_pkg \<Rightarrow> (string, 'p Collection) gomap \<Rightarrow> string \<Rightarrow> 'p \<Rightarrow> 'p \<Rightarrow>
   error + (string, 'p Collection) gomap" where
  "update_children pk [] itemID initialCurPath curPath = Inr []"
| "update_children pk ((i, c) # es) itemID initialCurPath curPath =
     (if i = itemID then
        (case update_children pk es itemID initialCurPath curPath of
           Inl e \<Rightarrow> Inl e
         | Inr rest \<Rightarrow> Inr ((i, c) # rest))
      else
        (case folderPath c of
           None \<Rightarrow> Inl PanicNilDereference
         | Some colPath \<Rightarrow>
             (case update_children pk es itemID initialCurPath curPath of
                Inl e \<Rightarrow> Inl e
              | Inr rest \<Rightarrow>
                  (case UpdateParent pk colPath initialCurPath curPath of
                     None \<Rightarrow> Inr ((i, c) # rest)
                   | Some colPath' \<Rightarrow> Inr ((i, SetFullPath pk c colPath') # rest)))))"

text \<open>
  \<open>updateCollectionPaths\<close> returns \<open>found\<close> and an error; the model returns \<open>found\<close> with
  the collection map as it is afterwards. Every value of the map is a \<open>*Collection\<close>, so
  the failed-cast errors cannot arise. \<open>initialCurPath.String()\<close> panics when the
  collection found has no current path.
\<close>

definition updateCollectionPaths ::
  "'p path_pkg \<Rightarrow> string \<Rightarrow> (string, 'p Collection) gomap \<Rightarrow> 'p \<Rightarrow>
   error + (bool \<times> (string, 'p Collection) gomap)" where
  "updateCollectionPaths pk itemID cmap curPath =
     (case map_of cmap itemID of
        None \<Rightarrow> Inr (False, cmap)
      | Some ocol \<Rightarrow>
          (case folderPath ocol of
             None \<Rightarrow> Inl PanicNilDereference
           | Some initialCurPath \<Rightarrow>
               if String pk initialCurPath = String pk curPath then Inr (True, cmap)
               else
                 (case update_children pk
                         (AList.update itemID (SetFullPath pk ocol curPath) cmap)
                         itemID initialCurPath curPath of
                    Inl e \<Rightarrow> Inl e
                  | Inr cmap' \<Rightarrow> Inr (True, cmap'))))"

section \<open>Collections.UpdateCollections\<close>

text \<open>
  The receiver \<open>Collections\<close>: what the enumeration reads (tenant, owner, source and
  selector) and what it updates (the collection map and the three counters).
\<close>

record 'p Collections =
  tenant :: string
  resourceOwner :: string
  source :: driveSource
  matcher :: folderMatcher
  CollectionMap :: "(string, 'p Collection) gomap"
  NumItems :: int
  NumFiles :: int
  NumContainers :: int

text \<open>
  \<open>UpdateCollections\<close> updates its receiver and the maps \<open>newPaths\<close>, \<open>excluded\<close> and
  \<open>itemCollection\<close> in place and returns an error or nil. The model passes the four as
  one state and returns the updated state; on an error the caller abandons the
  enumeration, so an error carries no state.
\<close>

record 'p update_state =
  receiver :: "'p Collections"
  newPaths :: "(string, string) gomap"
  excluded :: "string set"
  itemCollection :: "string \<rightharpoonup> string"

text \<open>The look-up of a previous path in \<open>oldPaths\<close>, parsed when the key is present.\<close>

definition previous_path ::
  "'p path_pkg \<Rightarrow> (string, string) gomap \<Rightarrow> string \<Rightarrow> error + 'p option" where
  "previous_path pk oldPaths k =
     (case map_of oldPaths k of
        None \<Rightarrow> Inr None
      | Some prevPathStr \<Rightarrow>
          (case FromDataLayerPath pk prevPathStr False of
             Inl e \<Rightarrow> Inl (Wrapped ''invalid previous path'' e)
           | Inr p \<Rightarrow> Inr (Some p)))"

text \<open>The folder or package case of the switch, for an item that is not deleted.\<close>

definition folder_upsert ::
  "'p path_pkg \<Rightarrow> string \<Rightarrow> bool \<Rightarrow> DriveItem \<Rightarrow> string \<Rightarrow> 'p option \<Rightarrow> 'p option \<Rightarrow>
   'p update_state \<Rightarrow> error + 'p update_state" where
  "folder_upsert pk driveID invalidPrevDelta item itemID itemPath prevPath' st =
     (case itemPath of
        None \<Rightarrow> Inl PanicNilDereference
      | Some ip \<Rightarrow>
          (let paths' = updatePath (newPaths st) itemID (String pk ip);
               c = receiver st
           in case updateCollectionPaths pk itemID (CollectionMap c) ip of
                Inl e \<Rightarrow> Inl e
              | Inr (found, cmap) \<Rightarrow>
                  (let c1 = (if found then c\<lparr>CollectionMap := cmap\<rparr>
                             else c\<lparr>CollectionMap :=
                                      AList.update itemID
                                        (NewCollection pk (Some ip) prevPath' driveID (source c)
                                           invalidPrevDelta) cmap,
                                    NumContainers := NumContainers c + 1\<rparr>)
                   in if source c1 \<noteq> OneDriveSource
                      then Inr (st\<lparr>receiver := c1, newPaths := paths'\<rparr>)
                      else
                        (case map_of (CollectionMap c1) itemID of
                           None \<Rightarrow> Inr (st\<lparr>receiver := c1, newPaths := paths'\<rparr>)
                         | Some col \<Rightarrow>
                             (case Add col item of
                                Inl e \<Rightarrow> Inl e
                              | Inr (col', isNew) \<Rightarrow>
                                  Inr (st\<lparr>receiver :=
                                            c1\<lparr>CollectionMap :=
                                                 AList.update itemID col' (CollectionMap c1),
                                               NumItems :=
                                                 (if isNew then NumItems c1 + 1 else NumItems c1)\<rparr>,
                                          newPaths := paths'\<rparr>))))))"

text \<open>The folder or package case of the switch.\<close>

definition folder_case ::
  "'p path_pkg \<Rightarrow> string \<Rightarrow> (string, string) gomap \<Rightarrow> bool \<Rightarrow> DriveItem \<Rightarrow> 'p option \<Rightarrow>
   'p update_state \<Rightarrow> error + 'p update_state" where
  "folder_case pk driveID oldPaths invalidPrevDelta item itemPath st =
     (case GetId item of
        None \<Rightarrow> Inl PanicNilDereference
      | Some itemID \<Rightarrow>
          (case previous_path pk oldPaths itemID of
             Inl e \<Rightarrow> Inl e
           | Inr prevPath' \<Rightarrow>
               if GetDeleted item then
                 (let st1 = st\<lparr>newPaths := AList.delete itemID (newPaths st)\<rparr>;
                      c = receiver st
                  in if prevPath' = None then Inr st1
                     else Inr (st1\<lparr>receiver :=
                                     c\<lparr>CollectionMap :=
                                          AList.update itemID
                                            (NewCollection pk None prevPath' driveID (source c)
                                               invalidPrevDelta)
                                            (CollectionMap c)\<rparr>\<rparr>))
               else folder_upsert pk driveID invalidPrevDelta item itemID itemPath prevPath' st))"

text \<open>
  The file already sits in a collection of this run (\<open>itemCollection\<close> has its id): it is
  taken out of that collection, and it is an error when the collection or the file is
  not there.
\<close>

definition remove_from_previous ::
  "DriveItem \<Rightarrow> string \<Rightarrow> (string \<rightharpoonup> string) \<Rightarrow> (string, 'p Collection) gomap \<Rightarrow>
   error + (string, 'p Collection) gomap" where
  "remove_from_previous item itemID itemCollection' cmap =
     (case itemCollection' itemID of
        None \<Rightarrow> Inr cmap
      | Some itemColID \<Rightarrow>
          (case map_of cmap itemColID of
             None \<Rightarrow> Inl ErrPrevCollectionNotFound
           | Some pcollection \<Rightarrow>
               (case Remove pcollection item of
                  Inl e \<Rightarrow> Inl e
                | Inr (pcollection', removed) \<Rightarrow>
                    if \<not> removed then Inl ErrRemovingFromPrevCollection
                    else Inr (AList.update itemColID pcollection' cmap))))"

text \<open>
  The collection of the parent container: the one the collection map has, or else a new
  one, entered in the map and counted.
\<close>

definition parent_collection ::
  "'p path_pkg \<Rightarrow> string \<Rightarrow> bool \<Rightarrow> string \<Rightarrow> 'p \<Rightarrow> 'p option \<Rightarrow> 'p Collections \<Rightarrow>
   'p Collections" where
  "parent_collection pk driveID invalidPrevDelta collectionID collectionPath prevCollectionPath c =
     (case map_of (CollectionMap c) collectionID of
        Some col \<Rightarrow> c
      | None \<Rightarrow>
          c\<lparr>CollectionMap :=
              AList.update collectionID
                (NewCollection pk (Some collectionPath) prevCollectionPath driveID (source c)
                   invalidPrevDelta)
                (CollectionMap c),
            NumContainers := NumContainers c + 1\<rparr>)"

text \<open>
  The file case of the switch, for a file that is not deleted. The collections are
  pointers: the collection the file is added to is read from the map after the removal,
  so that a file removed from and added to the same collection is handled as in Go.
\<close>

definition file_upsert ::
  "'p path_pkg \<Rightarrow> string \<Rightarrow> (string, string) gomap \<Rightarrow> bool \<Rightarrow> DriveItem \<Rightarrow> string \<Rightarrow> 'p \<Rightarrow>
   'p update_state \<Rightarrow> error + 'p update_state" where
  "file_upsert pk driveID oldPaths invalidPrevDelta item collectionID collectionPath st =
     (case ToOneDrivePath pk collectionPath of
        Inl e \<Rightarrow> Inl (Wrapped ''invalid path for backup'' e)
      | Inr folders' \<Rightarrow>
          (case (if length folders' = 0 then Inr (Some collectionPath)
                 else previous_path pk oldPaths collectionID) of
             Inl e \<Rightarrow> Inl e
           | Inr prevCollectionPath \<Rightarrow>
               (let c1 = parent_collection pk driveID invalidPrevDelta collectionID
                           collectionPath prevCollectionPath (receiver st)
                in case GetId item of
                     None \<Rightarrow> Inl PanicNilDereference
                   | Some itemID \<Rightarrow>
                       (case remove_from_previous item itemID (itemCollection st)
                               (CollectionMap c1) of
                          Inl e \<Rightarrow> Inl e
                        | Inr cmap \<Rightarrow>
                            (case map_of cmap collectionID of
                               None \<Rightarrow> Inl PanicNilDereference
                             | Some collection \<Rightarrow>
                                 (case Add collection item of
                                    Inl e \<Rightarrow> Inl e
                                  | Inr (collection', isNew) \<Rightarrow>
                                      Inr (st\<lparr>receiver :=
                                                c1\<lparr>CollectionMap :=
                                                     AList.update collectionID collection' cmap,
                                                   NumItems :=
                                                     (if isNew then NumItems c1 + 1
                                                      else NumItems c1),
                                                   NumFiles :=
                                                     (if isNew then NumFiles c1 + 1
                                                      else NumFiles c1)\<rparr>,
                                              itemCollection :=
                                                (itemCollection st)(itemID \<mapsto> collectionID)\<rparr>)))))))"

text \<open>The file case of the switch.\<close>

definition file_case ::
  "'p path_pkg \<Rightarrow> string \<Rightarrow> (string, string) gomap \<Rightarrow> bool \<Rightarrow> DriveItem \<Rightarrow> string \<Rightarrow> 'p \<Rightarrow>
   'p update_state \<Rightarrow> error + 'p update_state" where
  "file_case pk driveID oldPaths invalidPrevDelta item collectionID collectionPath st =
     (case (if \<not> invalidPrevDelta then
              (case GetId item of
                 None \<Rightarrow> Inl PanicNilDereference
               | Some itemID \<Rightarrow>
                   Inr (st\<lparr>excluded :=
                             insert (itemID @ MetaFileSuffix)
                               (insert (itemID @ DataFileSuffix) (excluded st))\<rparr>))
            else Inr st) of
        Inl e \<Rightarrow> Inl e
      | Inr st1 \<Rightarrow>
          if GetDeleted item then
            Inr (st1\<lparr>receiver :=
                      (receiver st1)\<lparr>NumItems := NumItems (receiver st1) + 1,
                                     NumFiles := NumFiles (receiver st1) + 1\<rparr>\<rparr>)
          else file_upsert pk driveID oldPaths invalidPrevDelta item collectionID
                 collectionPath st1)"

text \<open>The error for an item without a usable parent reference; building it
  dereferences the item's id.\<close>

definition no_parent_reference :: "DriveItem \<Rightarrow> error + 'a" where
  "no_parent_reference item =
     (case GetId item of None \<Rightarrow> Inl PanicNilDereference | Some i \<Rightarrow> Inl ErrNoParentReference)"

text \<open>
  The parent container of an item that is not the root: its id and its path string. The
  path string of a live item is the parent reference's path; that of a deleted item is
  the parent's entry in \<open>oldPaths\<close>, and without such an entry the item is passed over
  (\<open>Inr None\<close>: the loop continues with the next item).
\<close>

definition parent_container ::
  "(string, string) gomap \<Rightarrow> DriveItem \<Rightarrow> error + (string \<times> string) option" where
  "parent_container oldPaths item =
     (case GetParentReference item of
        None \<Rightarrow> no_parent_reference item
      | Some parent \<Rightarrow>
          (case ref_GetId parent of
             None \<Rightarrow> no_parent_reference item
           | Some collectionID \<Rightarrow>
               if \<not> GetDeleted item then
                 (case ref_GetPath parent of
                    None \<Rightarrow> no_parent_reference item
                  | Some collectionPathStr \<Rightarrow> Inr (Some (collectionID, collectionPathStr)))
               else
                 (case map_of oldPaths collectionID of
                    None \<Rightarrow> Inr None
                  | Some collectionPathStr \<Rightarrow> Inr (Some (collectionID, collectionPathStr)))))"

text \<open>The canonical path of the parent container and, for an item that is not deleted,
  the path of the item under it.\<close>

definition item_paths ::
  "'p path_pkg \<Rightarrow> 'p Collections \<Rightarrow> DriveItem \<Rightarrow> string \<Rightarrow> error + ('p \<times> 'p option)" where
  "item_paths pk c item collectionPathStr =
     (case GetCanonicalPath pk collectionPathStr (tenant c) (resourceOwner c) (source c) of
        Inl e \<Rightarrow> Inl e
      | Inr collectionPath \<Rightarrow>
          (let isFolder = (GetFolder item \<or> GetPackage item) in
           if \<not> GetDeleted item then
             (let name = (case GetName item of None \<Rightarrow> [] | Some n \<Rightarrow> n) in
              if length name = 0 then Inl ErrEmptyName
              else (case Append pk collectionPath name (\<not> isFolder) of
                      Inl e \<Rightarrow> Inl e
                    | Inr itemPath \<Rightarrow> Inr (collectionPath, Some itemPath)))
           else Inr (collectionPath, None)))"

text \<open>The switch on the kind of the item.\<close>

definition item_switch ::
  "'p path_pkg \<Rightarrow> string \<Rightarrow> (string, string) gomap \<Rightarrow> bool \<Rightarrow> DriveItem \<Rightarrow> string \<Rightarrow> 'p \<Rightarrow>
   'p option \<Rightarrow> 'p update_state \<Rightarrow> error + 'p update_state" where
  "item_switch pk driveID oldPaths invalidPrevDelta item collectionID collectionPath itemPath st =
     (if GetFolder item \<or> GetPackage item then
        folder_case pk driveID oldPaths invalidPrevDelta item itemPath st
      else if GetFile item then
        file_case pk driveID oldPaths invalidPrevDelta item collectionID collectionPath st
      else
        (case GetName item of
           None \<Rightarrow> Inl PanicNilDereference
         | Some n \<Rightarrow> Inl ErrItemTypeNotSupported))"

text \<open>One iteration of the loop of \<open>UpdateCollections\<close>. \<open>continue\<close> and \<open>break\<close> (out of
  the switch) both go on to the next item: the result is the state.\<close>

definition UpdateCollections_item ::
  "'p path_pkg \<Rightarrow> string \<Rightarrow> string \<Rightarrow> (string, string) gomap \<Rightarrow> bool \<Rightarrow> DriveItem \<Rightarrow>
   'p update_state \<Rightarrow> error + 'p update_state" where
  "UpdateCollections_item pk driveID driveName oldPaths invalidPrevDelta item st =
     (let c = receiver st in
      if GetRoot item then
        (case GetCanonicalPath pk (rootDrivePattern driveID) (tenant c) (resourceOwner c)
                (source c) of
           Inl e \<Rightarrow> Inl e
         | Inr rootPath \<Rightarrow>
             (case GetId item of
                None \<Rightarrow> Inl PanicNilDereference
              | Some itemID \<Rightarrow>
                  Inr (st\<lparr>newPaths := updatePath (newPaths st) itemID (String pk rootPath)\<rparr>)))
      else
        (case parent_container oldPaths item of
           Inl e \<Rightarrow> Inl e
         | Inr None \<Rightarrow> Inr st
         | Inr (Some (collectionID, collectionPathStr)) \<Rightarrow>
             (case item_paths pk c item collectionPathStr of
                Inl e \<Rightarrow> Inl e
              | Inr (collectionPath, itemPath) \<Rightarrow>
                  if shouldSkipDrive pk itemPath (matcher c) driveName \<and>
                     shouldSkipDrive pk (Some collectionPath) (matcher c) driveName
                  then Inr st
                  else item_switch pk driveID oldPaths invalidPrevDelta item collectionID
                         collectionPath itemPath st)))"

fun UpdateCollections ::
  "'p path_pkg \<Rightarrow> string \<Rightarrow> string \<Rightarrow> DriveItem list \<Rightarrow> (string, string) gomap \<Rightarrow> bool \<Rightarrow>
   'p update_state \<Rightarrow> error + 'p update_state" where
  "UpdateCollections pk driveID driveName [] oldPaths invalidPrevDelta st = Inr st"
| "UpdateCollections pk driveID driveName (item # items) oldPaths invalidPrevDelta st =
     (case UpdateCollections_item pk driveID driveName oldPaths invalidPrevDelta item st of
        Inl e \<Rightarrow> Inl e
      | Inr st' \<Rightarrow> UpdateCollections pk driveID driveName items oldPaths invalidPrevDelta st')"

section \<open>Collections.Get\<close>

record DeltaUpdate =
  URL :: string
  Reset :: bool

text \<open>\<open>models.Driveable\<close>, by the two getters \<open>Get\<close> dereferences.\<close>

record Drive =
  drive_GetId :: "string option"
  drive_GetName :: "string option"

text \<open>
  \<open>collectItems\<close> is not among the modelled files, so it is a parameter: given the drive id
  and name, the old paths, the previous delta token and the receiver (whose
  \<open>UpdateCollections\<close> it calls page by page), it returns an error, or the delta update,
  the new paths and the excluded items together with the receiver as it is afterwards.
\<close>

type_synonym 'p collectItems =
  "string \<Rightarrow> string \<Rightarrow> (string, string) gomap \<Rightarrow> string \<Rightarrow> 'p Collections \<Rightarrow>
   error + (DeltaUpdate \<times> (string, string) gomap \<times> string set \<times> 'p Collections)"

text \<open>The receiver and the three maps \<open>Get\<close> accumulates over the drives.\<close>

record 'p get_state =
  collections :: "'p Collections"
  deltaURLs :: deltas
  folderPaths :: folders
  excludedItems :: "string set"

text \<open>
  The set \<open>modifiedPaths\<close>: the full path of every collection in the collection map.
  \<open>p.FullPath().String()\<close> panics on a collection without a current path.
\<close>

fun modified_paths :: "'p path_pkg \<Rightarrow> (string, 'p Collection) gomap \<Rightarrow> error + string set" where
  "modified_paths pk [] = Inr {}"
| "modified_paths pk ((i, p) # es) =
     (case folderPath p of
        None \<Rightarrow> Inl PanicNilDereference
      | Some fullPath \<Rightarrow>
          (case modified_paths pk es of
             Inl e \<Rightarrow> Inl e
           | Inr modifiedPaths \<Rightarrow> Inr (insert (String pk fullPath) modifiedPaths)))"

text \<open>
  The loop over \<open>oldPaths\<close> that marks as deleted the folders of the previous backup that
  the new enumeration did not return.
\<close>

fun deleted_folders ::
  "'p path_pkg \<Rightarrow> string \<Rightarrow> driveSource \<Rightarrow> (string \<times> string) list \<Rightarrow> (string, string) gomap \<Rightarrow>
   string set \<Rightarrow> (string, 'p Collection) gomap \<Rightarrow> error + (string, 'p Collection) gomap" where
  "deleted_folders pk driveID source' [] paths modifiedPaths cmap = Inr cmap"
| "deleted_folders pk driveID source' ((i, p) # es) paths modifiedPaths cmap =
     (if map_of paths i \<noteq> None then
        deleted_folders pk driveID source' es paths modifiedPaths cmap
      else if p \<in> modifiedPaths then
        deleted_folders pk driveID source' es paths modifiedPaths cmap
      else
        (case FromDataLayerPath pk p False of
           Inl e \<Rightarrow> Inl (Wrapped ''invalid previous path'' e)
         | Inr prevPath' \<Rightarrow>
             deleted_folders pk driveID source' es (AList.delete i paths) modifiedPaths
               (AList.update i (NewCollection pk None (Some prevPath') driveID source' True)
                  cmap)))"

text \<open>The body of the loop of \<open>Get\<close> over the drives.\<close>

definition Get_drive ::
  "'p path_pkg \<Rightarrow> 'p collectItems \<Rightarrow> deltas \<Rightarrow> folders \<Rightarrow> Drive \<Rightarrow> 'p get_state \<Rightarrow>
   error + 'p get_state" where
  "Get_drive pk collectItems prevDeltas oldPathsByDriveID d st =
     (case drive_GetId d of
        None \<Rightarrow> Inl PanicNilDereference
      | Some driveID \<Rightarrow>
          (case drive_GetName d of
             None \<Rightarrow> Inl PanicNilDereference
           | Some driveName \<Rightarrow>
               (let prevDelta = index_or_zero prevDeltas driveID;
                    oldPaths = index_or_zero oldPathsByDriveID driveID
                in case collectItems driveID driveName oldPaths prevDelta (collections st) of
                     Inl e \<Rightarrow> Inl e
                   | Inr (delta, paths, excluded', c) \<Rightarrow>
                       (let deltaURLs' =
                              (if length (URL delta) > 0
                               then AList.update driveID (URL delta) (deltaURLs st)
                               else deltaURLs st);
                            folderPaths' =
                              AList.update driveID (maps_Copy [] paths) (folderPaths st)
                        in if \<not> Reset delta then
                             Inr \<lparr> collections = c, deltaURLs = deltaURLs',
                                   folderPaths = folderPaths',
                                   excludedItems = excludedItems st \<union> excluded' \<rparr>
                           else
                             (case modified_paths pk (CollectionMap c) of
                                Inl e \<Rightarrow> Inl e
                              | Inr modifiedPaths \<Rightarrow>
                                  (case deleted_folders pk driveID (source c) oldPaths paths
                                          modifiedPaths (CollectionMap c) of
                                     Inl e \<Rightarrow> Inl e
                                   | Inr cmap \<Rightarrow>
                                       Inr \<lparr> collections = c\<lparr>CollectionMap := cmap\<rparr>,
                                             deltaURLs = deltaURLs',
                                             folderPaths = folderPaths',
                                             excludedItems = excludedItems st \<rparr>))))))"

fun Get_drives ::
  "'p path_pkg \<Rightarrow> 'p collectItems \<Rightarrow> deltas \<Rightarrow> folders \<Rightarrow> Drive list \<Rightarrow> 'p get_state \<Rightarrow>
   error + 'p get_state" where
  "Get_drives pk collectItems prevDeltas oldPathsByDriveID [] st = Inr st"
| "Get_drives pk collectItems prevDeltas oldPathsByDriveID (d # ds) st =
     (case Get_drive pk collectItems prevDeltas oldPathsByDriveID d st of
        Inl e \<Rightarrow> Inl e
      | Inr st' \<Rightarrow> Get_drives pk collectItems prevDeltas oldPathsByDriveID ds st')"

text \<open>
  \<open>Get\<close>. The drive pager is outside the modelled files: \<open>listDrives\<close> is what creating the
  pager and enumerating the drives yields. The result is the state after the last drive:
  the Go function returns the collections of \<open>CollectionMap\<close>, followed by the metadata
  collection that persists \<open>folderPaths\<close> and \<open>deltaURLs\<close> (left out, with a warning, when
  building it fails), and \<open>excludedItems\<close>.
\<close>

definition Get ::
  "'p path_pkg \<Rightarrow> (error + Drive list) \<Rightarrow> 'p collectItems \<Rightarrow> MetadataItem list list \<Rightarrow>
   'p Collections \<Rightarrow> error + 'p get_state" where
  "Get pk listDrives collectItems prevMetadata c =
     (case deserializeMetadata prevMetadata of
        Inl e \<Rightarrow> Inl e
      | Inr (prevDeltas, oldPathsByDriveID) \<Rightarrow>
          (case listDrives of
             Inl e \<Rightarrow> Inl e
           | Inr drives \<Rightarrow>
               Get_drives pk collectItems prevDeltas oldPathsByDriveID drives
                 \<lparr> collections = c, deltaURLs = [], folderPaths = [], excludedItems = {} \<rparr>))"

section \<open>The enumeration of one drive\<close>

text \<open>
  Modelled from the spec: \<open>collectItems\<close>, which \<open>Get\<close> calls for every drive, is not among
  the source files. The spec's enumerator invokes the paginator with the previous delta
  token and, for each page, the reconciler (\<open>UpdateCollections\<close>) with the page's items,
  the previous paths and the accumulating new paths and exclusions. When the paginator
  signals a reset before the first page, the new paths start empty and
  \<open>invalidPrevDelta\<close> is passed on; otherwise they start as a copy of the old paths (the
  comment of \<open>UpdateCollections\<close> says so too). The enumeration ends with the new delta
  token and tells whether it was reset.

  What the item pager answers for a drive and a previous token is a parameter: whether
  the server invalidated the token, the pages of items, and the new delta token. The
  function is named \<open>collect_items\<close> here, \<open>collectItems\<close> being the name of the parameter
  of \<open>Get\<close> that it instantiates.
\<close>

record enumeration =
  enum_reset :: bool
  enum_pages :: "DriveItem list list"
  enum_deltaToken :: string

fun collect_pages ::
  "'p path_pkg \<Rightarrow> string \<Rightarrow> string \<Rightarrow> DriveItem list list \<Rightarrow> (string, string) gomap \<Rightarrow> bool \<Rightarrow>
   'p update_state \<Rightarrow> error + 'p update_state" where
  "collect_pages pk driveID driveName [] oldPaths invalidPrevDelta st = Inr st"
| "collect_pages pk driveID driveName (page # pages) oldPaths invalidPrevDelta st =
     (case UpdateCollections pk driveID driveName page oldPaths invalidPrevDelta st of
        Inl e \<Rightarrow> Inl e
      | Inr st' \<Rightarrow> collect_pages pk driveID driveName pages oldPaths invalidPrevDelta st')"

definition collect_items ::
  "'p path_pkg \<Rightarrow> (string \<Rightarrow> string \<Rightarrow> enumeration) \<Rightarrow> 'p collectItems" where
  "collect_items pk itemPager driveID driveName oldPaths prevDelta c =
     (let en = itemPager driveID prevDelta;
          invalidPrevDelta = enum_reset en;
          paths = (if invalidPrevDelta then [] else maps_Copy [] oldPaths)
      in case collect_pages pk driveID driveName (enum_pages en) oldPaths invalidPrevDelta
                \<lparr> receiver = c, newPaths = paths, excluded = {},
                  itemCollection = Map.empty \<rparr> of
           Inl e \<Rightarrow> Inl e
         | Inr st \<Rightarrow>
             Inr (\<lparr> URL = enum_deltaToken en, Reset = invalidPrevDelta \<rparr>, newPaths st,
                  excluded st, receiver st))"

section \<open>Backup details: folder entries and the Builder\<close>

text \<open>
  A \<open>time.Time\<close> is the instant it denotes, counted from the zero value \<open>time.Time{}\<close>
  (January 1 of year 1, UTC): \<open>Before\<close> is \<open><\<close>, and an instant before the zero value is
  negative. Sizes are \<open>int64\<close>: \<open>+=\<close> wraps around.
\<close>

type_synonym time = int

definition zero_time :: time where
  "zero_time = 0"

datatype ItemType =
    UnknownType | ExchangeContact | ExchangeEvent | ExchangeMail
  | SharePointItem | OneDriveItem | FolderItem

record FolderInfo =
  folder_ItemType :: ItemType
  DisplayName :: string
  folder_Modified :: time
  folder_Size :: "64 word"

text \<open>Of the three service infos, the fields that \<open>size\<close> and \<open>Modified\<close> read.\<close>

record ExchangeInfo =
  exchange_Modified :: time
  exchange_Size :: "64 word"

record SharePointInfo =
  sharePoint_Modified :: time
  sharePoint_Size :: "64 word"

record OneDriveInfo =
  oneDrive_Modified :: time
  oneDrive_Size :: "64 word"

record ItemInfo =
  Folder :: "FolderInfo option"
  Exchange :: "ExchangeInfo option"
  SharePoint :: "SharePointInfo option"
  OneDrive :: "OneDriveInfo option"

definition size_of :: "ItemInfo \<Rightarrow> 64 word" where
  "size_of i =
     (case Exchange i of Some e \<Rightarrow> exchange_Size e
      | None \<Rightarrow>
     (case OneDrive i of Some od \<Rightarrow> oneDrive_Size od
      | None \<Rightarrow>
     (case SharePoint i of Some sp \<Rightarrow> sharePoint_Size sp
      | None \<Rightarrow>
     (case Folder i of Some f \<Rightarrow> folder_Size f
      | None \<Rightarrow> 0))))"

definition Modified :: "ItemInfo \<Rightarrow> time" where
  "Modified i =
     (case Exchange i of Some e \<Rightarrow> exchange_Modified e
      | None \<Rightarrow>
     (case OneDrive i of Some od \<Rightarrow> oneDrive_Modified od
      | None \<Rightarrow>
     (case SharePoint i of Some sp \<Rightarrow> sharePoint_Modified sp
      | None \<Rightarrow>
     (case Folder i of Some f \<Rightarrow> folder_Modified f
      | None \<Rightarrow> zero_time))))"

record folderEntry =
  RepoRef :: string
  ShortRef :: string
  ParentRef :: string
  LocationRef :: string
  Updated :: bool
  Info :: ItemInfo

record DetailsEntry =
  entry_RepoRef :: string
  entry_ShortRef :: string
  entry_ParentRef :: string
  entry_LocationRef :: string
  entry_Updated :: bool
  entry_ItemInfo :: ItemInfo

text \<open>Modelled from the spec: \<open>path.Builder\<close> (package \<open>pkg/path\<close> is not among the modelled
  files). The spec speaks of the ancestor folders implied by a path and of the short-ref
  as a stable hash of a repo path: a builder is the list of its elements, \<open>Dir\<close> drops the
  last element, \<open>LastElem\<close> is the last element (the empty string of an empty builder),
  \<open>PopFront\<close> drops the first element, and the rendering \<open>String\<close> and the hash \<open>ShortRef\<close>
  are parameters.\<close>

type_synonym Builder = "string list"

record builder_pkg =
  builder_String :: "Builder \<Rightarrow> string"
  builder_ShortRef :: "Builder \<Rightarrow> string"

definition Dir :: "Builder \<Rightarrow> Builder" where
  "Dir pb = butlast pb"

definition LastElem :: "Builder \<Rightarrow> string" where
  "LastElem pb = (if pb = [] then [] else last pb)"

definition PopFront :: "Builder \<Rightarrow> Builder" where
  "PopFront pb = tl pb"

definition locationRefOf :: "Builder option \<Rightarrow> Builder option" where
  "locationRefOf pb =
     (case pb of None \<Rightarrow> None | Some b \<Rightarrow> Some (PopFront (PopFront (PopFront (PopFront b)))))"

text \<open>The loop of \<open>FolderEntriesForPath\<close>: one entry for \<open>parent\<close>, then for its \<open>Dir\<close>, and so
  on while the builder has elements.\<close>

function folder_entries :: "builder_pkg \<Rightarrow> Builder \<Rightarrow> Builder option \<Rightarrow> folderEntry list" where
  "folder_entries bp parent lfs =
     (if length parent > 0 then
        (let nextParent = Dir parent;
             lr = (case lfs of None \<Rightarrow> [] | Some l \<Rightarrow> builder_String bp l);
             dn = (case lfs of
                     None \<Rightarrow> LastElem parent
                   | Some l \<Rightarrow> if length l > 0 then LastElem l else LastElem parent)
         in \<lparr> RepoRef = builder_String bp parent,
              ShortRef = builder_ShortRef bp parent,
              ParentRef = builder_ShortRef bp nextParent,
              LocationRef = lr,
              Updated = False,
              Info = \<lparr> Folder = Some \<lparr> folder_ItemType = FolderItem, DisplayName = dn,
                                      folder_Modified = zero_time, folder_Size = 0 \<rparr>,
                       Exchange = None, SharePoint = None, OneDrive = None \<rparr> \<rparr>
            # folder_entries bp nextParent (map_option Dir lfs))
      else [])"
  by pat_completeness auto
termination
  by (relation "measure (\<lambda>(bp, parent, lfs). length parent)") (auto simp: Dir_def)

declare folder_entries.simps [simp del]

definition FolderEntriesForPath :: "builder_pkg \<Rightarrow> Builder \<Rightarrow> Builder option \<Rightarrow> folderEntry list" where
  "FolderEntriesForPath bp parent location = folder_entries bp parent (locationRefOf location)"

text \<open>
  The \<open>Builder\<close> of details: the entries added so far (its field \<open>d\<close>) and the cached
  folder entries (a nil map is the empty one). The mutex is not modelled. The folder entries made by
  \<open>FolderEntriesForPath\<close> each point to a \<open>FolderInfo\<close> of their own, so the info a cached
  entry points to is held in the entry.
\<close>

record DetailsBuilder =
  builder_d :: "DetailsEntry list"
  knownFolders :: "(string, folderEntry) gomap"

text \<open>The loop of \<open>AddFoldersForItem\<close>; updating the info of an entry whose \<open>Info.Folder\<close> is
  nil panics.\<close>

fun add_folders ::
  "folderEntry list \<Rightarrow> ItemInfo \<Rightarrow> bool \<Rightarrow> (string, folderEntry) gomap \<Rightarrow>
   error + (string, folderEntry) gomap" where
  "add_folders [] itemInfo updated known = Inr known"
| "add_folders (folder # folders) itemInfo updated known =
     (let folder1 = (case map_of known (ShortRef folder) of
                       Some existing \<Rightarrow> existing
                     | None \<Rightarrow> folder);
          itemModified = Modified itemInfo
      in case Folder (Info folder1) of
           None \<Rightarrow> Inl PanicNilDereference
         | Some fi \<Rightarrow>
             (let fi1 = fi\<lparr>folder_Size := folder_Size fi + size_of itemInfo\<rparr>;
                  fi2 = (if folder_Modified fi1 < itemModified
                         then fi1\<lparr>folder_Modified := itemModified\<rparr> else fi1);
                  folder2 = folder1\<lparr>Info := (Info folder1)\<lparr>Folder := Some fi2\<rparr>\<rparr>;
                  folder3 = (if updated then folder2\<lparr>Updated := True\<rparr> else folder2)
              in add_folders folders itemInfo updated
                   (AList.update (ShortRef folder3) folder3 known)))"

definition AddFoldersForItem ::
  "DetailsBuilder \<Rightarrow> folderEntry list \<Rightarrow> ItemInfo \<Rightarrow> bool \<Rightarrow> error + DetailsBuilder" where
  "AddFoldersForItem b folders itemInfo updated =
     (case add_folders folders itemInfo updated (knownFolders b) of
        Inl e \<Rightarrow> Inl e
      | Inr known \<Rightarrow> Inr (b\<lparr>knownFolders := known\<rparr>))"

definition addFolder :: "DetailsEntry list \<Rightarrow> folderEntry \<Rightarrow> DetailsEntry list" where
  "addFolder entries folder =
     entries @
     [\<lparr> entry_RepoRef = RepoRef folder,
        entry_ShortRef = ShortRef folder,
        entry_ParentRef = ParentRef folder,
        entry_LocationRef = [],
        entry_Updated = Updated folder,
        entry_ItemInfo = Info folder \<rparr>]"

text \<open>\<open>Builder.Details\<close>: the cached folder entries are written to the details.\<close>

fun write_folders :: "(string \<times> folderEntry) list \<Rightarrow> DetailsEntry list \<Rightarrow> DetailsEntry list" where
  "write_folders [] entries = entries"
| "write_folders ((k, folder) # es) entries = write_folders es (addFolder entries folder)"

definition Details :: "DetailsBuilder \<Rightarrow> DetailsBuilder" where
  "Details b = b\<lparr>builder_d := write_folders (knownFolders b) (builder_d b)\<rparr>"

section \<open>Merging items through the Builder\<close>

text \<open>Modelled from the spec: the callers of \<open>AddFoldersForItem\<close> (the merge of details in
  package \<open>operations\<close> and the upload callback, neither among the modelled files). The
  spec: for each item, upsert a folder entry for each ancestor folder implied by the
  item's path. An item is given by its parent path, its location, its info and whether
  it was updated; the folder entries of each item are built by \<open>FolderEntriesForPath\<close>.\<close>

record MergedItem =
  item_parent :: Builder
  item_location :: "Builder option"
  item_info :: ItemInfo
  item_updated :: bool

fun add_items :: "builder_pkg \<Rightarrow> MergedItem list \<Rightarrow> DetailsBuilder \<Rightarrow> error + DetailsBuilder" where
  "add_items bp [] b = Inr b"
| "add_items bp (it # its) b =
     (case AddFoldersForItem b
             (FolderEntriesForPath bp (item_parent it) (item_location it))
             (item_info it) (item_updated it) of
        Inl e \<Rightarrow> Inl e
      | Inr b' \<Rightarrow> add_items bp its b')"

text \<open>The ancestor folders implied by a path: the path itself and the results of
  repeated \<open>Dir\<close>, while they have elements; these are the non-empty prefixes of the
  path. An item is beneath each ancestor folder of its parent path.\<close>

function ancestors :: "Builder \<Rightarrow> Builder list" where
  "ancestors parent = (if length parent > 0 then parent # ancestors (Dir parent) else [])"
  by pat_completeness auto
termination
  by (relation "measure length") (auto simp: Dir_def)

declare ancestors.simps [simp del]

definition beneath :: "Builder \<Rightarrow> MergedItem list \<Rightarrow> MergedItem list" where
  "beneath folder its = filter (\<lambda>it. folder \<in> set (ancestors (item_parent it))) its"

definition all_folders :: "MergedItem list \<Rightarrow> Builder list" where
  "all_folders its = remdups (concat (map (\<lambda>it. ancestors (item_parent it)) its))"

section \<open>Observations on the Builder\<close>

text \<open>A folder entry as \<open>FolderEntriesForPath\<close> makes it: a folder info with size zero and the
  zero time, and not updated.\<close>

definition fresh :: "folderEntry \<Rightarrow> bool" where
  "fresh fe \<longleftrightarrow> (\<exists>fi. Folder (Info fe) = Some fi \<and> folder_Size fi = 0 \<and>
      folder_Modified fi = zero_time) \<and> \<not> Updated fe"

text \<open>What the claims observe of the cached entry under a key: the size and the modified time
  of its folder info, and whether it is updated.\<close>

definition view :: "(string, folderEntry) gomap \<Rightarrow> string \<Rightarrow> (64 word \<times> time \<times> bool) option" where
  "view known k =
     (case map_of known k of
        None \<Rightarrow> None
      | Some fe \<Rightarrow>
          (case Folder (Info fe) of
             None \<Rightarrow> None
           | Some fi \<Rightarrow> Some (folder_Size fi, folder_Modified fi, Updated fe)))"

text \<open>The effect of one item on what is observed of an entry; \<open>None\<close> is an entry that is not
  cached yet.\<close>

definition bump :: "ItemInfo \<Rightarrow> bool \<Rightarrow> (64 word \<times> time \<times> bool) option \<Rightarrow> 64 word \<times> time \<times> bool" where
  "bump itemInfo updated v =
     (case v of
        None \<Rightarrow> (size_of itemInfo, max zero_time (Modified itemInfo), updated)
      | Some (s, m, u) \<Rightarrow> (s + size_of itemInfo, max m (Modified itemInfo), u \<or> updated))"

text \<open>The cache holds every entry under the entry's own short ref, and every cached entry has
  a folder info.\<close>

definition well_keyed :: "(string, folderEntry) gomap \<Rightarrow> bool" where
  "well_keyed known \<longleftrightarrow>
     distinct (map fst known) \<and>
     (\<forall>k fe. map_of known k = Some fe \<longrightarrow> ShortRef fe = k \<and> Folder (Info fe) \<noteq> None)"

text \<open>The size, the modified time and the updated flag a folder has after a list of items:
  the sum of the sizes of the items beneath it, the latest of the zero time and their
  modified times, and whether one of them was updated.\<close>

definition expected :: "Builder \<Rightarrow> MergedItem list \<Rightarrow> 64 word \<times> time \<times> bool" where
  "expected folder its =
     (sum_list (map (\<lambda>it. size_of (item_info it)) (beneath folder its)),
      Max (insert zero_time (set (map (\<lambda>it. Modified (item_info it)) (beneath folder its)))),
      \<exists>it \<in> set (beneath folder its). item_updated it)"

text \<open>The details entry that \<open>addFolder\<close> appends for a folder entry.\<close>

definition folder_to_entry :: "folderEntry \<Rightarrow> DetailsEntry" where
  "folder_to_entry folder =
     \<lparr> entry_RepoRef = RepoRef folder, entry_ShortRef = ShortRef folder,
       entry_ParentRef = ParentRef folder, entry_LocationRef = [],
       entry_Updated = Updated folder, entry_ItemInfo = Info folder \<rparr>"

section \<open>Example inputs\<close>

text \<open>Concrete inputs at which the theorems below are instantiated and evaluated. Paths
  are plain strings here.\<close>

definition ex_file :: DriveItem where
  "ex_file =
     \<lparr> GetId = Some ''f1'', GetName = Some ''report.txt'', GetRoot = False,
       GetParentReference = Some \<lparr> ref_GetId = Some ''A'', ref_GetPath = Some ''/drives/d1/root:/A'' \<rparr>,
       GetDeleted = False, GetFolder = False, GetPackage = False, GetFile = True \<rparr>"

definition ex_coll_empty :: "string Collection" where
  "ex_coll_empty =
     \<lparr> folderPath = Some ''root:/A'', driveItems = Map.empty, coll_driveID = ''d1'',
       coll_source = OneDriveSource, prevPath = None, state = NewState,
       doNotMergeItems = False \<rparr>"

definition ex_coll_f1 :: "string Collection" where
  "ex_coll_f1 = ex_coll_empty\<lparr>driveItems := [''f1'' \<mapsto> ex_file]\<rparr>"

text \<open>Two metadata collections that each hold one delta-URL file, both with an entry for
  drive \<open>d1\<close>.\<close>

definition ex_delta_file :: "string \<Rightarrow> MetadataItem" where
  "ex_delta_file token =
     \<lparr> UUID = DeltaURLsFileName, asFolders = DecodeFailure,
       asDeltas = Decoded [(''d1'', token)] \<rparr>"

text \<open>One metadata collection with a delta-URL file and a previous-path file: drive \<open>d1\<close>
  is complete, \<open>d2\<close> has an empty token, \<open>d3\<close> has no paths and \<open>d4\<close> has no token.\<close>

definition ex_metadata :: "MetadataItem list list" where
  "ex_metadata =
     [[\<lparr> UUID = DeltaURLsFileName, asFolders = DecodeFailure,
         asDeltas = Decoded [(''d1'', ''token1''), (''d2'', []), (''d3'', ''token3'')] \<rparr>,
       \<lparr> UUID = PreviousPathFileName,
         asFolders = Decoded [(''d1'', [(''A'', ''/drives/d1/root:/A'')]), (''d2'', []), (''d4'', [])],
         asDeltas = DecodeFailure \<rparr>]]"

text \<open>An instance of the path package on strings: a path is the string of its non-empty
  elements, each after a slash; appending adds an element; the folders of a path are its
  elements after the first three (\<open>drives\<close>, the drive id and \<open>root:\<close>); every conversion
  succeeds.\<close>

definition ex_join :: "string list \<Rightarrow> string" where
  "ex_join elems = concat (map (\<lambda>e. CHR ''/'' # e) (filter (\<lambda>e. e \<noteq> []) elems))"

definition ex_pk :: "string path_pkg" where
  "ex_pk =
     \<lparr> String = (\<lambda>p. p),
       Append = (\<lambda>p name isItem. Inr (p @ ''/'' @ name)),
       Category = (\<lambda>p. FilesCategory),
       UpdateParent = (\<lambda>p prev cur.
         if prefix (prev @ ''/'') p then Some (cur @ drop (length prev) p) else None),
       FromDataLayerPath = (\<lambda>s isItem. Inr s),
       ToOneDrivePath = (\<lambda>p. Inr (drop 3 (filter (\<lambda>e. e \<noteq> []) (strings_Split p)))),
       GetDriveFolderPath = (\<lambda>p. Inr p),
       ToDataLayerOneDrivePath = (\<lambda>elems t ro isItem. Inr (ex_join elems)),
       ToDataLayerSharePointPath = (\<lambda>elems t ro cat isItem. Inr (ex_join elems)) \<rparr>"

text \<open>A OneDrive enumeration of drive \<open>d1\<close> whose selector admits every folder. The
  previous backup knew the root and the folders \<open>A\<close>, \<open>A/B\<close> and \<open>C\<close>.\<close>

definition ex_receiver :: "string Collections" where
  "ex_receiver =
     \<lparr> tenant = ''t'', resourceOwner = ''u'', source = OneDriveSource,
       matcher = \<lparr> IsAny = True, Matches = (\<lambda>s. True) \<rparr>,
       CollectionMap = [], NumItems = 0, NumFiles = 0, NumContainers = 0 \<rparr>"

definition ex_oldPaths :: "(string, string) gomap" where
  "ex_oldPaths =
     [(''root'', ''/drives/d1/root:''), (''A'', ''/drives/d1/root:/A''),
      (''B'', ''/drives/d1/root:/A/B''), (''C'', ''/drives/d1/root:/C'')]"

definition ex_state :: "string update_state" where
  "ex_state =
     \<lparr> receiver = ex_receiver, newPaths = ex_oldPaths, excluded = {},
       itemCollection = Map.empty \<rparr>"

text \<open>The folder \<open>A\<close> comes back renamed to \<open>A2\<close>, and the state after that event.\<close>

definition ex_folder_renamed :: DriveItem where
  "ex_folder_renamed =
     \<lparr> GetId = Some ''A'', GetName = Some ''A2'', GetRoot = False,
       GetParentReference =
         Some \<lparr> ref_GetId = Some ''root'', ref_GetPath = Some ''/drives/d1/root:'' \<rparr>,
       GetDeleted = False, GetFolder = True, GetPackage = False, GetFile = False \<rparr>"

definition ex_state_renamed :: "string update_state" where
  "ex_state_renamed =
     \<lparr> receiver =
         ex_receiver
         \<lparr>CollectionMap :=
            [(''A'',
              \<lparr> folderPath = Some ''/drives/d1/root:/A2'',
                driveItems = [''A'' \<mapsto> ex_folder_renamed],
                coll_driveID = ''d1'', coll_source = OneDriveSource,
                prevPath = Some ''/drives/d1/root:/A'', state = MovedState,
                doNotMergeItems = False \<rparr>)],
          NumItems := 1, NumContainers := 1\<rparr>,
       newPaths =
         [(''root'', ''/drives/d1/root:''), (''A'', ''/drives/d1/root:/A2''),
          (''B'', ''/drives/d1/root:/A2/B''), (''C'', ''/drives/d1/root:/C'')],
       excluded = {},
       itemCollection = Map.empty \<rparr>"

text \<open>The file \<open>f1\<close> is reported in folder \<open>A\<close>, and later in the same enumeration in
  folder \<open>C\<close>; the states after the first and after the second event.\<close>

definition ex_file_moved :: DriveItem where
  "ex_file_moved =
     ex_file\<lparr>GetParentReference :=
               Some \<lparr> ref_GetId = Some ''C'', ref_GetPath = Some ''/drives/d1/root:/C'' \<rparr>\<rparr>"

definition ex_coll_A :: "string Collection" where
  "ex_coll_A =
     \<lparr> folderPath = Some ''/drives/d1/root:/A'', driveItems = Map.empty,
       coll_driveID = ''d1'', coll_source = OneDriveSource,
       prevPath = Some ''/drives/d1/root:/A'', state = NotMovedState,
       doNotMergeItems = False \<rparr>"

definition ex_coll_C :: "string Collection" where
  "ex_coll_C =
     \<lparr> folderPath = Some ''/drives/d1/root:/C'', driveItems = Map.empty,
       coll_driveID = ''d1'', coll_source = OneDriveSource,
       prevPath = Some ''/drives/d1/root:/C'', state = NotMovedState,
       doNotMergeItems = False \<rparr>"

definition ex_state_file_in_A :: "string update_state" where
  "ex_state_file_in_A =
     \<lparr> receiver =
         ex_receiver
         \<lparr>CollectionMap := [(''A'', ex_coll_A\<lparr>driveItems := [''f1'' \<mapsto> ex_file]\<rparr>)],
          NumItems := 1, NumFiles := 1, NumContainers := 1\<rparr>,
       newPaths = ex_oldPaths,
       excluded = {''f1.meta'', ''f1.data''},
       itemCollection = [''f1'' \<mapsto> ''A''] \<rparr>"

definition ex_state_file_in_C :: "string update_state" where
  "ex_state_file_in_C =
     \<lparr> receiver =
         ex_receiver
         \<lparr>CollectionMap :=
            [(''A'', ex_coll_A), (''C'', ex_coll_C\<lparr>driveItems := [''f1'' \<mapsto> ex_file_moved]\<rparr>)],
          NumItems := 2, NumFiles := 2, NumContainers := 2\<rparr>,
       newPaths = ex_oldPaths,
       excluded = {''f1.meta'', ''f1.data''},
       itemCollection = [''f1'' \<mapsto> ''C''] \<rparr>"

text \<open>A run of \<open>Get\<close> over one drive, with two behaviours of the enumeration: it reports
  the root folder only and returns no delta token; it returns a token without a reset.\<close>

definition ex_drive :: Drive where
  "ex_drive = \<lparr> drive_GetId = Some ''d1'', drive_GetName = Some ''drive'' \<rparr>"

definition ex_collect_no_token :: "string collectItems" where
  "ex_collect_no_token driveID driveName oldPaths prevDelta c =
     Inr (\<lparr> URL = [], Reset = False \<rparr>, [(''root'', ''/drives/d1/root:'')], {}, c)"

definition ex_collect_no_reset :: "string collectItems" where
  "ex_collect_no_reset driveID driveName oldPaths prevDelta c =
     Inr (\<lparr> URL = ''token2'', Reset = False \<rparr>, [(''root'', ''/drives/d1/root:'')], {}, c)"

text \<open>The collections of two deleted folders, as \<open>Get\<close> makes them after an enumeration
  that was reset.\<close>

definition ex_tombstone_A :: "string Collection" where
  "ex_tombstone_A =
     \<lparr> folderPath = None, driveItems = Map.empty,
       coll_driveID = ''d1'', coll_source = OneDriveSource,
       prevPath = Some ''/drives/d1/root:/A'', state = DeletedState, doNotMergeItems = True \<rparr>"

definition ex_tombstone_B :: "string Collection" where
  "ex_tombstone_B =
     \<lparr> folderPath = None, driveItems = Map.empty,
       coll_driveID = ''d2'', coll_source = OneDriveSource,
       prevPath = Some ''/drives/d2/root:/B'', state = DeletedState, doNotMergeItems = True \<rparr>"

definition ex_get_start :: "string get_state" where
  "ex_get_start =
     \<lparr> collections = ex_receiver, deltaURLs = [], folderPaths = [], excludedItems = {} \<rparr>"

text \<open>A run of \<open>Get\<close> over two drives. The previous backup knew the root and folder \<open>A\<close>
  of drive \<open>d1\<close>, and the root and folder \<open>B\<close> of drive \<open>d2\<close>, with a delta token for each.
  Both folders have been deleted since.

  With \<open>ex_pager_reset\<close> the server has invalidated both tokens, and the fresh
  enumeration of either drive reports its root only. With \<open>ex_pager_delete\<close> the token
  of \<open>d1\<close> is still valid and the server reports the root and the deletion of \<open>A\<close>;
  the token of \<open>d2\<close> is invalidated as before.\<close>

definition ex_drive2 :: Drive where
  "ex_drive2 = \<lparr> drive_GetId = Some ''d2'', drive_GetName = Some ''drive2'' \<rparr>"

definition ex_previous :: "MetadataItem list list" where
  "ex_previous =
     [[\<lparr> UUID = DeltaURLsFileName, asFolders = DecodeFailure,
         asDeltas = Decoded [(''d1'', ''token1''), (''d2'', ''token1'')] \<rparr>,
       \<lparr> UUID = PreviousPathFileName,
         asFolders =
           Decoded [(''d1'', [(''d1-root'', ''/drives/d1/root:''), (''A'', ''/drives/d1/root:/A'')]),
                    (''d2'', [(''d2-root'', ''/drives/d2/root:''), (''B'', ''/drives/d2/root:/B'')])],
         asDeltas = DecodeFailure \<rparr>]]"

text \<open>What \<open>ex_previous\<close> loads to, and the state of \<open>Get\<close> after drive \<open>d1\<close> when its
  enumeration was reset.\<close>

definition ex_previous_deltas :: deltas where
  "ex_previous_deltas = [(''d1'', ''token1''), (''d2'', ''token1'')]"

definition ex_previous_paths :: folders where
  "ex_previous_paths =
     [(''d1'', [(''d1-root'', ''/drives/d1/root:''), (''A'', ''/drives/d1/root:/A'')]),
      (''d2'', [(''d2-root'', ''/drives/d2/root:''), (''B'', ''/drives/d2/root:/B'')])]"

definition ex_after_first_drive :: "string get_state" where
  "ex_after_first_drive =
     \<lparr> collections = ex_receiver\<lparr>CollectionMap := [(''A'', ex_tombstone_A)]\<rparr>,
       deltaURLs = [(''d1'', ''token2'')],
       folderPaths = [(''d1'', [(''d1-root'', ''/drives/d1/root:'')])],
       excludedItems = {} \<rparr>"

definition ex_root :: "string \<Rightarrow> DriveItem" where
  "ex_root driveID =
     \<lparr> GetId = Some (driveID @ ''-root''), GetName = Some ''root'', GetRoot = True,
       GetParentReference = None, GetDeleted = False, GetFolder = True, GetPackage = False,
       GetFile = False \<rparr>"

definition ex_folder_deleted :: DriveItem where
  "ex_folder_deleted =
     \<lparr> GetId = Some ''A'', GetName = Some ''A'', GetRoot = False,
       GetParentReference = Some \<lparr> ref_GetId = Some ''d1-root'', ref_GetPath = None \<rparr>,
       GetDeleted = True, GetFolder = True, GetPackage = False, GetFile = False \<rparr>"

definition ex_pager_reset :: "string \<Rightarrow> string \<Rightarrow> enumeration" where
  "ex_pager_reset driveID prevDelta =
     \<lparr> enum_reset = True, enum_pages = [[ex_root driveID]], enum_deltaToken = ''token2'' \<rparr>"

definition ex_pager_delete :: "string \<Rightarrow> string \<Rightarrow> enumeration" where
  "ex_pager_delete driveID prevDelta =
     (if driveID = ''d1''
      then \<lparr> enum_reset = False, enum_pages = [[ex_root driveID, ex_folder_deleted]],
             enum_deltaToken = ''token2'' \<rparr>
      else ex_pager_reset driveID prevDelta)"

text \<open>Folder entries for two items, one in folder \<open>t/A\<close> and one in \<open>t/A/B\<close>; and for two
  items in folder \<open>t\<close> whose modified times lie before the zero time and whose sizes add
  up to more than an \<open>int64\<close> holds. The short ref of a path is the path joined with
  slashes. \<open>ex_entry\<close> is the details entry of a folder.\<close>

definition ex_bp :: builder_pkg where
  "ex_bp = \<lparr> builder_String = ex_join, builder_ShortRef = ex_join \<rparr>"

definition ex_info :: "time \<Rightarrow> 64 word \<Rightarrow> ItemInfo" where
  "ex_info modified sz =
     \<lparr> Folder = None, Exchange = None, SharePoint = None,
       OneDrive = Some \<lparr> oneDrive_Modified = modified, oneDrive_Size = sz \<rparr> \<rparr>"

definition ex_items :: "MergedItem list" where
  "ex_items =
     [\<lparr> item_parent = [''t'', ''A''], item_location = None,
        item_info = ex_info 5 10, item_updated = True \<rparr>,
      \<lparr> item_parent = [''t'', ''A'', ''B''], item_location = None,
        item_info = ex_info 9 32, item_updated = False \<rparr>]"

definition ex_old_items :: "MergedItem list" where
  "ex_old_items =
     [\<lparr> item_parent = [''t''], item_location = None,
        item_info = ex_info (- 2) 9223372036854775807, item_updated = False \<rparr>,
      \<lparr> item_parent = [''t''], item_location = None,
        item_info = ex_info (- 1) 1, item_updated = False \<rparr>]"

definition ex_builder :: DetailsBuilder where
  "ex_builder = \<lparr> builder_d = [], knownFolders = [] \<rparr>"

definition ex_entry :: "string \<Rightarrow> string \<Rightarrow> string \<Rightarrow> time \<Rightarrow> 64 word \<Rightarrow> bool \<Rightarrow> DetailsEntry" where
  "ex_entry ref parent name modified sz updated =
     \<lparr> entry_RepoRef = ref, entry_ShortRef = ref, entry_ParentRef = parent,
       entry_LocationRef = [], entry_Updated = updated,
       entry_ItemInfo =
         \<lparr> Folder = Some \<lparr> folder_ItemType = FolderItem, DisplayName = name,
                            folder_Modified = modified, folder_Size = sz \<rparr>,
           Exchange = None, SharePoint = None, OneDrive = None \<rparr> \<rparr>"

section \<open>Facts about Go maps\<close>

lemma keys_Nil [simp]: "keys [] = {}"
  by (simp add: keys_def)

lemma keys_Cons [simp]: "keys ((k, v) # m) = insert k (keys m)"
  by (simp add: keys_def)

lemma map_of_None_keys: "map_of m k = None \<longleftrightarrow> k \<notin> keys m"
  by (simp add: keys_def map_of_eq_None_iff)

lemma keys_delete: "keys (AList.delete k m) = keys m - {k}"
  by (induction m) (auto simp: keys_def)

lemma set_delete: "set (AList.delete k m) = {e \<in> set m. fst e \<noteq> k}"
  by (induction m) auto

lemma keys_update: "keys (AList.update k v m) = insert k (keys m)"
  by (simp add: keys_def dom_update)

lemma keys_maps_Copy: "keys (maps_Copy dst src) = keys dst \<union> keys src"
  by (induction dst src rule: maps_Copy.induct) (auto simp: keys_update)

lemma duplicate_iff: "duplicate tmp alreadyFound \<longleftrightarrow> (\<exists>k \<in> keys tmp. k \<in> keys alreadyFound)"
  by (induction tmp) (auto simp: map_of_None_keys)

section \<open>The metadata codec\<close>

subsection \<open>The clean-up after each collection\<close>

lemma remove_partial_deltas_inv:
  "remove_partial_deltas es pd pf = (pd', pf') \<Longrightarrow>
     set pd' \<subseteq> set pd \<and> set pf' \<subseteq> set pf \<and>
     keys pf' = keys pf - {k. (k, []) \<in> set es} \<and>
     (\<forall>(k, v) \<in> set es. k \<in> keys pd' \<longrightarrow> v \<noteq> [] \<and> k \<in> keys pf')"
proof (induction es pd pf arbitrary: pd' pf' rule: remove_partial_deltas.induct)
  case (1 prevDeltas prevFolders)
  then show ?case by simp
next
  case (2 k v es prevDeltas prevFolders)
  define pd1 where "pd1 = (if length v = 0 then AList.delete k prevDeltas else prevDeltas)"
  define pf1 where "pf1 = (if length v = 0 then AList.delete k prevFolders else prevFolders)"
  define pd2 where "pd2 = (if map_of pf1 k = None then AList.delete k pd1 else pd1)"
  from "2.prems" have run: "remove_partial_deltas es pd2 pf1 = (pd', pf')"
    by (simp only: remove_partial_deltas.simps Let_def pd1_def pf1_def pd2_def)
  from "2.IH" [OF pd1_def pf1_def pd2_def run]
  have sub1: "set pd' \<subseteq> set pd2" and sub2: "set pf' \<subseteq> set pf1"
    and kf: "keys pf' = keys pf1 - {k. (k, []) \<in> set es}"
    and rest: "\<forall>(k, v) \<in> set es. k \<in> keys pd' \<longrightarrow> v \<noteq> [] \<and> k \<in> keys pf'"
    by auto
  have pd2_sub: "set pd2 \<subseteq> set prevDeltas"
    by (auto simp: pd2_def pd1_def set_delete)
  have pf1_sub: "set pf1 \<subseteq> set prevFolders"
    by (auto simp: pf1_def set_delete)
  have kpf1: "keys pf1 = keys prevFolders - (if v = [] then {k} else {})"
    by (auto simp: pf1_def keys_delete)
  have kpd': "keys pd' \<subseteq> keys pd2"
    using sub1 by (auto simp: keys_def)
  have head: "k \<in> keys pd' \<longrightarrow> v \<noteq> [] \<and> k \<in> keys pf'"
  proof
    assume in': "k \<in> keys pd'"
    then have in2: "k \<in> keys pd2" using kpd' by auto
    have vne: "v \<noteq> []"
      using in2 by (auto simp: pd2_def pd1_def keys_delete split: if_splits)
    have inpf1: "k \<in> keys pf1"
      using in2 by (auto simp: pd2_def keys_delete map_of_None_keys split: if_splits)
    have "(k, []) \<notin> set es"
      using rest in' by auto
    then have "k \<in> keys pf'" using kf inpf1 by auto
    with vne show "v \<noteq> [] \<and> k \<in> keys pf'" by simp
  qed
  show ?case
    using sub1 sub2 pd2_sub pf1_sub kf kpf1 rest head by auto
qed

lemma remove_partial_folders_inv:
  "set (remove_partial_folders es pf pd) \<subseteq> set pf \<and>
   keys (remove_partial_folders es pf pd) = keys pf - {k \<in> keys es. k \<notin> keys pd}"
proof (induction es pf pd rule: remove_partial_folders.induct)
  case (1 prevFolders prevDeltas)
  then show ?case by simp
next
  case (2 k v es prevFolders prevDeltas)
  show ?case
  proof (cases "k \<in> keys prevDeltas")
    case True
    then show ?thesis using 2 by (auto simp: map_of_None_keys)
  next
    case False
    then have "set (remove_partial_folders es (AList.delete k prevFolders) prevDeltas)
                 \<subseteq> set (AList.delete k prevFolders)"
      and "keys (remove_partial_folders es (AList.delete k prevFolders) prevDeltas) =
           keys (AList.delete k prevFolders) - {k \<in> keys es. k \<notin> keys prevDeltas}"
      using 2 by (auto simp: map_of_None_keys)
    with False show ?thesis
      by (auto simp: map_of_None_keys keys_delete set_delete)
  qed
qed

lemma cleanup_paired:
  assumes "remove_partial_deltas pd pd pf = (pd', pf')"
  shows "(\<forall>(k, v) \<in> set pd'. v \<noteq> []) \<and> keys pd' = keys (remove_partial_folders pf' pf' pd')"
proof -
  from remove_partial_deltas_inv [OF assms]
  have sub: "set pd' \<subseteq> set pd"
    and rest: "\<forall>(k, v) \<in> set pd. k \<in> keys pd' \<longrightarrow> v \<noteq> [] \<and> k \<in> keys pf'"
    by auto
  have ne: "\<forall>(k, v) \<in> set pd'. v \<noteq> []"
    using sub rest by (force simp: keys_def)
  have subk: "keys pd' \<subseteq> keys pf'"
    using sub rest by (force simp: keys_def)
  have "keys (remove_partial_folders pf' pf' pd') = keys pf' - {k \<in> keys pf'. k \<notin> keys pd'}"
    using remove_partial_folders_inv [of pf' pf' pd'] by simp
  with subk have "keys pd' = keys (remove_partial_folders pf' pf' pd')" by auto
  with ne show ?thesis by simp
qed

lemma deserialize_cols_paired:
  "deserialize_cols cols pd pf = Inr (pd', pf') \<Longrightarrow>
   (\<forall>(k, v) \<in> set pd. v \<noteq> []) \<and> keys pd = keys pf \<Longrightarrow>
   (\<forall>(k, v) \<in> set pd'. v \<noteq> []) \<and> keys pd' = keys pf'"
proof (induction cols arbitrary: pd pf)
  case Nil
  then show ?case by simp
next
  case (Cons col cols)
  from Cons.prems(1) obtain pd1 pf1 pd2 pf2 where
    rd: "read_items col pd pf = Inr (pd1, pf1)" and
    cl: "remove_partial_deltas pd1 pd1 pf1 = (pd2, pf2)" and
    rest: "deserialize_cols cols pd2 (remove_partial_folders pf2 pf2 pd2) = Inr (pd', pf')"
    by (auto split: sum.splits prod.splits)
  from cleanup_paired [OF cl] Cons.IH [OF rest] show ?case by blast
qed

text \<open>
  \<^bold>\<open>C5.\<close> Whenever \<open>deserializeMetadata\<close> loads without error, no delta entry of the
  returned delta map has an empty token, and the returned delta map and path map have
  the same keys: an entry with an empty token is dropped together with its path entry,
  and an entry without a partner in the other map is dropped.
\<close>

theorem deserializeMetadata_paired:
  assumes "deserializeMetadata cols = Inr (prevDeltas, prevFolders)"
  shows "(\<forall>k v. (k, v) \<in> set prevDeltas \<longrightarrow> v \<noteq> []) \<and> keys prevDeltas = keys prevFolders"
  using deserialize_cols_paired [of cols "[]" "[]" prevDeltas prevFolders] assms
  by (auto simp: deserializeMetadata_def)

lemma ex_metadata_loads:
  "deserializeMetadata ex_metadata =
     Inr ([(''d1'', ''token1'')], [(''d1'', [(''A'', ''/drives/d1/root:/A'')])])"
  by (simp add: deserializeMetadata_def ex_metadata_def deserializeMap_def
      PreviousPathFileName_def DeltaURLsFileName_def)

theorem deserializeMetadata_paired_witness:
  "deserializeMetadata ex_metadata =
     Inr ([(''d1'', ''token1'')], [(''d1'', [(''A'', ''/drives/d1/root:/A'')])]) \<and>
   ''token1'' \<noteq> [] \<and>
   keys [(''d1'', ''token1'')] = keys [(''d1'', [(''A'', ''/drives/d1/root:/A'')])]"
  using deserializeMetadata_paired [OF ex_metadata_loads] ex_metadata_loads
  by simp

subsection \<open>deserializeMap\<close>

text \<open>
  \<^bold>\<open>C9.\<close> \<open>deserializeMap\<close> is atomic on error: when it returns an error (a decoding
  failure or a duplicate key) the accumulated map is as it was before the call, and when
  it returns nil the reader decoded to a map whose entries were copied in.
\<close>

theorem deserializeMap_atomic:
  "(fst (deserializeMap rd alreadyFound) \<noteq> None \<longrightarrow>
      snd (deserializeMap rd alreadyFound) = alreadyFound) \<and>
   (fst (deserializeMap rd alreadyFound) = None \<longrightarrow>
      (\<exists>tmp. rd = Decoded tmp \<and> snd (deserializeMap rd alreadyFound) = maps_Copy alreadyFound tmp))"
  by (auto simp: deserializeMap_def split: reader.splits)

theorem deserializeMap_atomic_witness:
  "fst (deserializeMap (Decoded [(''d1'', ''new'')]) [(''d1'', ''old'')]) \<noteq> None \<and>
   snd (deserializeMap (Decoded [(''d1'', ''new'')]) [(''d1'', ''old'')]) = [(''d1'', ''old'')] \<and>
   fst (deserializeMap (Decoded [(''d2'', ''new'')]) [(''d1'', ''old'')]) = None \<and>
   snd (deserializeMap (Decoded [(''d2'', ''new'')]) [(''d1'', ''old'')]) =
     [(''d1'', ''old''), (''d2'', ''new'')]"
  using deserializeMap_atomic [of "Decoded [(''d1'', ''new'')]" "[(''d1'', ''old'')]"]
    deserializeMap_atomic [of "Decoded [(''d2'', ''new'')]" "[(''d1'', ''old'')]"]
  by (simp add: deserializeMap_def)

subsection \<open>Duplicate keys\<close>

lemma read_items_append:
  "read_items (xs @ ys) pd pf =
     (case read_items xs pd pf of Inl e \<Rightarrow> Inl e | Inr (pd', pf') \<Rightarrow> read_items ys pd' pf')"
  by (induction xs pd pf rule: read_items.induct) (auto split: prod.splits option.splits)

lemma deserialize_cols_append:
  "deserialize_cols (xs @ ys) pd pf =
     (case deserialize_cols xs pd pf of
        Inl e \<Rightarrow> Inl e
      | Inr (pd', pf') \<Rightarrow> deserialize_cols ys pd' pf')"
  by (induction xs arbitrary: pd pf) (auto split: sum.splits prod.splits)

lemma deserializeMap_existing:
  "(\<exists>e. fst (deserializeMap rd alreadyFound) = Some e \<and> errors_Is e ErrExistingMapping) \<longleftrightarrow>
   (\<exists>tmp. rd = Decoded tmp \<and> (\<exists>k \<in> keys tmp. k \<in> keys alreadyFound))"
  by (auto simp: deserializeMap_def duplicate_iff split: reader.splits if_splits)

lemma read_items_duplicate_folders:
  assumes "UUID item = PreviousPathFileName" "asFolders item = Decoded tmp"
    "k \<in> keys tmp" "k \<in> keys pf"
  shows "\<exists>e. read_items (item # items) pd pf = Inl e \<and> errors_Is e ErrExistingMapping"
  using assms by (auto simp: deserializeMap_def duplicate_iff)

lemma read_items_duplicate_deltas:
  assumes "UUID item = DeltaURLsFileName" "asDeltas item = Decoded tmp"
    "k \<in> keys tmp" "k \<in> keys pd"
  shows "\<exists>e. read_items (item # items) pd pf = Inl e \<and> errors_Is e ErrExistingMapping"
  using assms
  by (auto simp: deserializeMap_def duplicate_iff PreviousPathFileName_def DeltaURLsFileName_def)

text \<open>
  \<^bold>\<open>C6.\<close> As amended. \<open>deserializeMap\<close> returns \<open>errExistingMapping\<close> exactly when the
  reader decodes to a map that shares a key with the accumulated map. \<open>deserializeMetadata\<close>
  fails with that error whenever a previous-path file or a delta-URL file decodes to a map
  with a key that the accumulated map of its kind holds at that moment, that is after the
  collections \<open>before\<close> (each followed by its clean-up) and the items \<open>earlier\<close> of the
  same collection.
\<close>

theorem duplicate_key_fails_load:
  "((\<exists>e. fst (deserializeMap rd alreadyFound) = Some e \<and> errors_Is e ErrExistingMapping) \<longleftrightarrow>
    (\<exists>tmp. rd = Decoded tmp \<and> (\<exists>k \<in> keys tmp. k \<in> keys alreadyFound))) \<and>
   (deserialize_cols before [] [] = Inr (pd0, pf0) \<and>
    read_items earlier pd0 pf0 = Inr (pd, pf) \<and>
    ((UUID item = PreviousPathFileName \<and> asFolders item = Decoded tmpf \<and>
        k \<in> keys tmpf \<and> k \<in> keys pf) \<or>
     (UUID item = DeltaURLsFileName \<and> asDeltas item = Decoded tmpd \<and>
        k \<in> keys tmpd \<and> k \<in> keys pd))
    \<longrightarrow> (\<exists>e. deserializeMetadata (before @ (earlier @ item # later) # after) = Inl e \<and>
             errors_Is e ErrExistingMapping))"
proof (intro conjI impI)
  show "(\<exists>e. fst (deserializeMap rd alreadyFound) = Some e \<and> errors_Is e ErrExistingMapping) \<longleftrightarrow>
    (\<exists>tmp. rd = Decoded tmp \<and> (\<exists>k \<in> keys tmp. k \<in> keys alreadyFound))"
    by (rule deserializeMap_existing)
next
  assume a: "deserialize_cols before [] [] = Inr (pd0, pf0) \<and>
    read_items earlier pd0 pf0 = Inr (pd, pf) \<and>
    ((UUID item = PreviousPathFileName \<and> asFolders item = Decoded tmpf \<and>
        k \<in> keys tmpf \<and> k \<in> keys pf) \<or>
     (UUID item = DeltaURLsFileName \<and> asDeltas item = Decoded tmpd \<and>
        k \<in> keys tmpd \<and> k \<in> keys pd))"
  then obtain e where e: "read_items (item # later) pd pf = Inl e" "errors_Is e ErrExistingMapping"
    using read_items_duplicate_folders [of item tmpf k pf later pd]
      read_items_duplicate_deltas [of item tmpd k pd later pf] by blast
  from a e(1) have "read_items (earlier @ item # later) pd0 pf0 = Inl e"
    by (simp add: read_items_append)
  then have "deserialize_cols ((earlier @ item # later) # after) pd0 pf0 = Inl e"
    by simp
  with a have "deserializeMetadata (before @ (earlier @ item # later) # after) = Inl e"
    by (simp add: deserializeMetadata_def deserialize_cols_append)
  with e(2) show "\<exists>e. deserializeMetadata (before @ (earlier @ item # later) # after) = Inl e \<and>
      errors_Is e ErrExistingMapping"
    by blast
qed

theorem duplicate_key_fails_load_witness:
  "fst (deserializeMap (Decoded [(''d1'', ''token2'')]) [(''d1'', ''token1'')]) =
     Some (Wrapped [] ErrExistingMapping) \<and>
   errors_Is (Wrapped [] ErrExistingMapping) ErrExistingMapping \<and>
   deserialize_cols [] [] [] = Inr ([], []) \<and>
   read_items [ex_delta_file ''token1''] [] [] = Inr ([(''d1'', ''token1'')], []) \<and>
   UUID (ex_delta_file ''token2'') = DeltaURLsFileName \<and>
   asDeltas (ex_delta_file ''token2'') = Decoded [(''d1'', ''token2'')] \<and>
   ''d1'' \<in> keys [(''d1'', ''token2'')] \<and>
   ''d1'' \<in> keys [(''d1'', ''token1'')] \<and>
   deserializeMetadata [[ex_delta_file ''token1'', ex_delta_file ''token2'']] =
     Inl (Wrapped ''deserializing metadata file'' (Wrapped [] ErrExistingMapping))"
  using duplicate_key_fails_load [of "Decoded [(''d1'', ''token2'')]" "[(''d1'', ''token1'')]"
      "[]" "[]" "[]" "[ex_delta_file ''token1'']" "[(''d1'', ''token1'')]" "[]"
      "ex_delta_file ''token2''" "[]" "''d1''" "[(''d1'', ''token2'')]" "[]" "[]"]
  by (simp add: deserializeMetadata_def ex_delta_file_def deserializeMap_def
      PreviousPathFileName_def DeltaURLsFileName_def)

text \<open>
  The claim as stated fails: two delta-URL files with an entry for the same drive, one in
  each of two collections, load without error. The clean-up after the first collection
  removes the entry (it has no path entry), so the second file finds no duplicate.
\<close>

theorem duplicate_key_counterexample:
  "deserializeMetadata [[ex_delta_file ''token1''], [ex_delta_file ''token2'']] = Inr ([], [])"
  by (simp add: deserializeMetadata_def ex_delta_file_def deserializeMap_def
      PreviousPathFileName_def DeltaURLsFileName_def)

section \<open>Collection.Add and Collection.Remove\<close>

text \<open>
  \<^bold>\<open>C10.\<close> As amended. For an item with an id: \<open>Add\<close> returns true exactly when no item
  with that id was in the collection, and afterwards the item is there under its id; a
  \<open>Remove\<close> of the same item right after returns true and leaves the collection as it
  was before the \<open>Add\<close> but without that id, which is the collection before the \<open>Add\<close>
  when the id was not in it; and a second \<open>Add\<close> of the same item returns false and
  changes nothing.
\<close>

theorem Add_then_Remove:
  assumes "GetId item = Some itemID"
  shows "Add oc item =
           Inr (oc\<lparr>driveItems := (driveItems oc)(itemID \<mapsto> item)\<rparr>, driveItems oc itemID = None) \<and>
         driveItems (oc\<lparr>driveItems := (driveItems oc)(itemID \<mapsto> item)\<rparr>) itemID = Some item \<and>
         Remove (oc\<lparr>driveItems := (driveItems oc)(itemID \<mapsto> item)\<rparr>) item =
           Inr (oc\<lparr>driveItems := (driveItems oc)(itemID := None)\<rparr>, True) \<and>
         (driveItems oc itemID = None \<longrightarrow>
            Remove (oc\<lparr>driveItems := (driveItems oc)(itemID \<mapsto> item)\<rparr>) item = Inr (oc, True)) \<and>
         Add (oc\<lparr>driveItems := (driveItems oc)(itemID \<mapsto> item)\<rparr>) item =
           Inr (oc\<lparr>driveItems := (driveItems oc)(itemID \<mapsto> item)\<rparr>, False)"
proof -
  have "driveItems oc itemID = None \<Longrightarrow> (driveItems oc)(itemID := None) = driveItems oc"
    by (rule ext) simp
  then show ?thesis
    using assms by (simp add: Add_def Remove_def)
qed

theorem Add_then_Remove_witness:
  "GetId ex_file = Some ''f1'' \<and>
   Add ex_coll_empty ex_file = Inr (ex_coll_f1, True) \<and>
   driveItems ex_coll_f1 ''f1'' = Some ex_file \<and>
   Remove ex_coll_f1 ex_file = Inr (ex_coll_empty, True) \<and>
   Add ex_coll_f1 ex_file = Inr (ex_coll_f1, False)"
  using Add_then_Remove [of ex_file "''f1''" ex_coll_empty]
  by (simp add: ex_coll_f1_def ex_file_def ex_coll_empty_def)

text \<open>
  The claim as stated fails for a collection that already holds the item: \<open>Add\<close> returns
  false, the \<open>Remove\<close> that follows returns true, and the id that was in the collection
  before the \<open>Add\<close> is gone.
\<close>

theorem Add_then_Remove_counterexample:
  "Add ex_coll_f1 ex_file = Inr (ex_coll_f1, False) \<and>
   Remove ex_coll_f1 ex_file = Inr (ex_coll_empty, True) \<and>
   driveItems ex_coll_f1 ''f1'' = Some ex_file \<and>
   driveItems ex_coll_empty ''f1'' = None"
  by (simp add: Add_def Remove_def ex_coll_f1_def ex_file_def ex_coll_empty_def)

section \<open>UpdateCollections\<close>

subsection \<open>updatePath\<close>

lemma strings_Replace1_prefix:
  "prefix old s \<Longrightarrow> strings_Replace1 s old new = new @ drop (length old) s"
  by (subst strings_Replace1.simps) simp

lemma map_of_update_subtree:
  "map_of (update_subtree paths oldPath newPath) k =
     map_option (\<lambda>p. if prefix oldPath p then newPath @ drop (length oldPath) p else p) (map_of paths k)"
  by (induction paths oldPath newPath rule: update_subtree.induct)
     (auto simp: strings_Replace1_prefix)

lemma keys_update_subtree: "keys (update_subtree paths oldPath newPath) = keys paths"
  by (induction paths oldPath newPath rule: update_subtree.induct) auto

subsection \<open>Reaching the switch\<close>

text \<open>
  An event is processed when the loop body reaches the switch on the item's kind: the
  item is not the root, its parent container is known, the paths are built without
  error, and the selector does not skip it.
\<close>

lemma step_to_switch:
  assumes "\<not> GetRoot item"
    and "parent_container oldPaths item = Inr (Some (collectionID, collectionPathStr))"
    and "item_paths pk (receiver st) item collectionPathStr = Inr (collectionPath, itemPath)"
    and "\<not> (shouldSkipDrive pk itemPath (matcher (receiver st)) driveName \<and>
           shouldSkipDrive pk (Some collectionPath) (matcher (receiver st)) driveName)"
  shows "UpdateCollections_item pk driveID driveName oldPaths invalidPrevDelta item st =
     item_switch pk driveID oldPaths invalidPrevDelta item collectionID collectionPath itemPath st"
  using assms by (auto simp: UpdateCollections_item_def Let_def)

subsection \<open>The folder case\<close>

lemma folder_upsert_newPaths:
  assumes "folder_upsert pk driveID invalidPrevDelta item itemID (Some ip) prevPath' st = Inr st'"
  shows "newPaths st' = updatePath (newPaths st) itemID (String pk ip)"
proof (cases "updateCollectionPaths pk itemID (CollectionMap (receiver st)) ip")
  case (Inl e)
  with assms show ?thesis by (simp add: folder_upsert_def)
next
  case (Inr r)
  obtain found cmap where r: "r = (found, cmap)" by (cases r)
  define c1 where "c1 = (if found then (receiver st)\<lparr>CollectionMap := cmap\<rparr>
                             else (receiver st)\<lparr>CollectionMap :=
                                      AList.update itemID
                                        (NewCollection pk (Some ip) prevPath' driveID (source (receiver st))
                                           invalidPrevDelta) cmap,
                                    NumContainers := NumContainers (receiver st) + 1\<rparr>)"
  show ?thesis
  proof (cases "source c1 \<noteq> OneDriveSource")
    case True
    with assms Inr r show ?thesis
      by (auto simp: folder_upsert_def Let_def c1_def split: if_splits)
  next
    case False
    show ?thesis
    proof (cases "map_of (CollectionMap c1) itemID")
      case None
      with assms Inr r False show ?thesis
        by (auto simp: folder_upsert_def Let_def c1_def split: if_splits)
    next
      case (Some col)
      show ?thesis
      proof (cases "Add col item")
        case (Inl e)
        with assms Inr r False Some show ?thesis
          by (auto simp: folder_upsert_def Let_def c1_def split: if_splits)
      next
        case (Inr q)
        obtain col' isNew where "q = (col', isNew)" by (cases q)
        with assms \<open>updateCollectionPaths pk itemID (CollectionMap (receiver st)) ip = Inr r\<close> r False Some Inr show ?thesis
          by (auto simp: folder_upsert_def Let_def c1_def split: if_splits)
      qed
    qed
  qed
qed

text \<open>
  \<^bold>\<open>C2.\<close> A folder or package upsert that \<open>UpdateCollections\<close> processes, for an item
  whose entry in \<open>newPaths\<close> (its old path) is not empty and differs from its new path:
  after the event \<open>newPaths\<close> has the same keys, every entry whose value had the old path
  as a prefix has that prefix replaced by the new path (so the new path is a prefix of
  its value), and every other entry is unchanged.
\<close>

theorem moved_folder_rewrites_newPaths:
  assumes "\<not> GetRoot item"
    and "parent_container oldPaths item = Inr (Some (collectionID, collectionPathStr))"
    and "item_paths pk (receiver st) item collectionPathStr = Inr (collectionPath, Some itemPath)"
    and "\<not> (shouldSkipDrive pk (Some itemPath) (matcher (receiver st)) driveName \<and>
           shouldSkipDrive pk (Some collectionPath) (matcher (receiver st)) driveName)"
    and "GetFolder item \<or> GetPackage item" and "\<not> GetDeleted item"
    and "GetId item = Some itemID"
    and "UpdateCollections_item pk driveID driveName oldPaths invalidPrevDelta item st = Inr st'"
    and "index_or_zero (newPaths st) itemID = oldPath"
    and "oldPath \<noteq> []" and "oldPath \<noteq> String pk itemPath"
  shows "keys (newPaths st') = keys (newPaths st) \<and>
    (\<forall>k p. map_of (newPaths st) k = Some p \<longrightarrow>
       map_of (newPaths st') k =
         Some (if prefix oldPath p then String pk itemPath @ drop (length oldPath) p else p)) \<and>
    (\<forall>k p p'. map_of (newPaths st) k = Some p \<and> prefix oldPath p \<and>
       map_of (newPaths st') k = Some p' \<longrightarrow> prefix (String pk itemPath) p')"
proof -
  have "item_switch pk driveID oldPaths invalidPrevDelta item collectionID collectionPath (Some itemPath) st = Inr st'"
    using step_to_switch [OF assms(1-4)] assms(8) by simp
  then have "folder_case pk driveID oldPaths invalidPrevDelta item (Some itemPath) st = Inr st'"
    using assms(5) by (simp add: item_switch_def)
  then obtain prevPath' where
    "folder_upsert pk driveID invalidPrevDelta item itemID (Some itemPath) prevPath' st = Inr st'"
    using assms(6,7)
    by (cases "previous_path pk oldPaths itemID") (auto simp: folder_case_def)
  then have np: "newPaths st' = updatePath (newPaths st) itemID (String pk itemPath)"
    by (rule folder_upsert_newPaths)
  have "updatePath (newPaths st) itemID (String pk itemPath) =
      update_subtree (newPaths st) oldPath (String pk itemPath)"
    using assms(9-11) by (simp add: updatePath_def Let_def)
  with np have eq: "newPaths st' = update_subtree (newPaths st) oldPath (String pk itemPath)"
    by simp
  have 1: "keys (newPaths st') = keys (newPaths st)"
    by (simp add: eq keys_update_subtree)
  have 2: "\<forall>k p. map_of (newPaths st) k = Some p \<longrightarrow>
       map_of (newPaths st') k =
         Some (if prefix oldPath p then String pk itemPath @ drop (length oldPath) p else p)"
    by (simp add: eq map_of_update_subtree)
  have 3: "\<forall>k p p'. map_of (newPaths st) k = Some p \<and> prefix oldPath p \<and>
       map_of (newPaths st') k = Some p' \<longrightarrow> prefix (String pk itemPath) p'"
  proof (intro allI impI)
    fix k p p'
    assume a: "map_of (newPaths st) k = Some p \<and> prefix oldPath p \<and>
       map_of (newPaths st') k = Some p'"
    then have "map_of (newPaths st') k = Some (String pk itemPath @ drop (length oldPath) p)"
      using 2 by auto
    with a have "p' = String pk itemPath @ drop (length oldPath) p" by simp
    then show "prefix (String pk itemPath) p'" by simp
  qed
  from 1 2 3 show ?thesis by blast
qed


subsection \<open>The file case\<close>

lemma file_upsert_eq:
  assumes "ToOneDrivePath pk collectionPath = Inr folders'"
    and "(if length folders' = 0 then Inr (Some collectionPath)
          else previous_path pk oldPaths collectionID) = Inr prevCollectionPath"
    and "GetId item = Some itemID"
    and "remove_from_previous item itemID (itemCollection st)
           (CollectionMap (parent_collection pk driveID invalidPrevDelta collectionID
              collectionPath prevCollectionPath (receiver st))) = Inr cmap"
    and "map_of cmap collectionID = Some collection"
  shows "file_upsert pk driveID oldPaths invalidPrevDelta item collectionID collectionPath st =
     Inr (st\<lparr>receiver :=
              (parent_collection pk driveID invalidPrevDelta collectionID
                 collectionPath prevCollectionPath (receiver st))
              \<lparr>CollectionMap :=
                 AList.update collectionID
                   (collection\<lparr>driveItems := (driveItems collection)(itemID \<mapsto> item)\<rparr>) cmap,
               NumItems := (if driveItems collection itemID = None
                  then NumItems (parent_collection pk driveID invalidPrevDelta collectionID
                         collectionPath prevCollectionPath (receiver st)) + 1
                  else NumItems (parent_collection pk driveID invalidPrevDelta collectionID
                         collectionPath prevCollectionPath (receiver st))),
               NumFiles := (if driveItems collection itemID = None
                  then NumFiles (parent_collection pk driveID invalidPrevDelta collectionID
                         collectionPath prevCollectionPath (receiver st)) + 1
                  else NumFiles (parent_collection pk driveID invalidPrevDelta collectionID
                         collectionPath prevCollectionPath (receiver st)))\<rparr>,
            itemCollection := (itemCollection st)(itemID \<mapsto> collectionID)\<rparr>)"
  unfolding file_upsert_def Let_def
  by (simp only: assms sum.case option.case Add_def prod.case)

lemma file_upsert_Inr:
  assumes ok: "file_upsert pk driveID oldPaths invalidPrevDelta item collectionID collectionPath st = Inr st'"
    and id: "GetId item = Some itemID"
  shows "\<exists>prevCollectionPath cmap collection c1 n m.
     c1 = parent_collection pk driveID invalidPrevDelta collectionID collectionPath prevCollectionPath (receiver st) \<and>
     remove_from_previous item itemID (itemCollection st) (CollectionMap c1) = Inr cmap \<and>
     map_of cmap collectionID = Some collection \<and>
     st' = st\<lparr>receiver :=
                c1\<lparr>CollectionMap :=
                     AList.update collectionID
                       (collection\<lparr>driveItems := (driveItems collection)(itemID \<mapsto> item)\<rparr>) cmap,
                   NumItems := n, NumFiles := m\<rparr>,
              itemCollection := (itemCollection st)(itemID \<mapsto> collectionID)\<rparr>"
proof (cases "ToOneDrivePath pk collectionPath")
  case (Inl e)
  with ok show ?thesis by (simp add: file_upsert_def)
next
  case folders: (Inr folders')
  show ?thesis
  proof (cases "if length folders' = 0 then Inr (Some collectionPath)
                 else previous_path pk oldPaths collectionID")
    case (Inl e)
    with ok folders show ?thesis by (simp add: file_upsert_def)
  next
    case prev: (Inr prevCollectionPath)
    define c1 where "c1 = parent_collection pk driveID invalidPrevDelta collectionID collectionPath prevCollectionPath (receiver st)"
    show ?thesis
    proof (cases "remove_from_previous item itemID (itemCollection st) (CollectionMap c1)")
      case (Inl e)
      with ok folders prev id show ?thesis
        by (simp add: file_upsert_def Let_def c1_def)
    next
      case rm: (Inr cmap)
      show ?thesis
      proof (cases "map_of cmap collectionID")
        case None
        with ok folders prev id rm show ?thesis
          by (simp add: file_upsert_def Let_def c1_def)
      next
        case (Some collection)
        from file_upsert_eq [OF folders prev id rm [unfolded c1_def] Some] ok
        show ?thesis
          using rm Some unfolding c1_def by (intro exI conjI) (rule refl, assumption, assumption, simp)
      qed
    qed
  qed
qed


lemma map_of_parent_collection:
  "map_of (CollectionMap (parent_collection pk driveID invalidPrevDelta collectionID
      collectionPath prevCollectionPath c)) k =
   (if k = collectionID \<and> map_of (CollectionMap c) collectionID = None
    then Some (NewCollection pk (Some collectionPath) prevCollectionPath driveID (source c)
                 invalidPrevDelta)
    else map_of (CollectionMap c) k)"
  by (simp add: parent_collection_def update_conv' split: option.splits)

lemma remove_from_previous_Inr:
  assumes "remove_from_previous item itemID ic cmap = Inr cmap'"
    and "GetId item = Some itemID" and "ic itemID = Some itemColID"
  shows "\<exists>pc. map_of cmap itemColID = Some pc \<and> driveItems pc itemID \<noteq> None \<and>
     cmap' = AList.update itemColID (pc\<lparr>driveItems := (driveItems pc)(itemID := None)\<rparr>) cmap"
proof (cases "map_of cmap itemColID")
  case None
  with assms show ?thesis by (simp add: remove_from_previous_def)
next
  case (Some pc)
  with assms show ?thesis
    by (cases "driveItems pc itemID = None") (auto simp: remove_from_previous_def Remove_def)
qed

lemma file_upsert_moved:
  assumes ok: "file_upsert pk driveID oldPaths invalidPrevDelta item collectionID collectionPath st = Inr st'"
    and id: "GetId item = Some itemID" and ic: "itemCollection st itemID = Some itemColID"
  shows "(\<exists>collection. map_of (CollectionMap (receiver st')) collectionID = Some collection \<and>
            driveItems collection itemID = Some item) \<and>
         (itemColID \<noteq> collectionID \<longrightarrow>
            (\<exists>pcollection. map_of (CollectionMap (receiver st')) itemColID = Some pcollection \<and>
               driveItems pcollection itemID = None)) \<and>
         itemCollection st' itemID = Some collectionID \<and>
         (\<exists>pcollection. map_of (CollectionMap (receiver st)) itemColID = Some pcollection \<and>
               driveItems pcollection itemID \<noteq> None)"
proof -
  from file_upsert_Inr [OF ok id] obtain prevCollectionPath cmap collection c1 n m where
    c1: "c1 = parent_collection pk driveID invalidPrevDelta collectionID collectionPath
               prevCollectionPath (receiver st)" and
    rm: "remove_from_previous item itemID (itemCollection st) (CollectionMap c1) = Inr cmap" and
    col: "map_of cmap collectionID = Some collection" and
    st': "st' = st\<lparr>receiver :=
                c1\<lparr>CollectionMap :=
                     AList.update collectionID
                       (collection\<lparr>driveItems := (driveItems collection)(itemID \<mapsto> item)\<rparr>) cmap,
                   NumItems := n, NumFiles := m\<rparr>,
              itemCollection := (itemCollection st)(itemID \<mapsto> collectionID)\<rparr>"
    by blast
  from remove_from_previous_Inr [OF rm id ic] obtain pc where
    pc: "map_of (CollectionMap c1) itemColID = Some pc" "driveItems pc itemID \<noteq> None" and
    cmap: "cmap = AList.update itemColID (pc\<lparr>driveItems := (driveItems pc)(itemID := None)\<rparr>)
                    (CollectionMap c1)"
    by blast
  have 1: "\<exists>collection. map_of (CollectionMap (receiver st')) collectionID = Some collection \<and>
            driveItems collection itemID = Some item"
    by (simp add: st' update_conv')
  have 2: "itemColID \<noteq> collectionID \<longrightarrow>
            (\<exists>pcollection. map_of (CollectionMap (receiver st')) itemColID = Some pcollection \<and>
               driveItems pcollection itemID = None)"
    by (simp add: st' cmap update_conv')
  have 3: "itemCollection st' itemID = Some collectionID"
    by (simp add: st')
  have 4: "\<exists>pcollection. map_of (CollectionMap (receiver st)) itemColID = Some pcollection \<and>
               driveItems pcollection itemID \<noteq> None"
    using pc unfolding c1 map_of_parent_collection
    by (auto simp: NewCollection_def split: if_splits)
  from 1 2 3 4 show ?thesis by blast
qed

lemma file_upsert_excluded:
  assumes "file_upsert pk driveID oldPaths invalidPrevDelta item collectionID collectionPath st = Inr st'"
    and "GetId item = Some itemID"
  shows "excluded st' = excluded st"
proof -
  from file_upsert_Inr [OF assms] obtain c' ic' where "st' = st\<lparr>receiver := c', itemCollection := ic'\<rparr>"
    by blast
  then show ?thesis by simp
qed

lemma file_case_upsert:
  assumes "\<not> GetDeleted item" "GetId item = Some itemID"
  shows "file_case pk driveID oldPaths invalidPrevDelta item collectionID collectionPath st =
     file_upsert pk driveID oldPaths invalidPrevDelta item collectionID collectionPath
       (if invalidPrevDelta then st
        else st\<lparr>excluded := insert (itemID @ MetaFileSuffix)
                               (insert (itemID @ DataFileSuffix) (excluded st))\<rparr>)"
  using assms by (simp add: file_case_def)

lemma file_case_deleted:
  assumes "GetDeleted item" "GetId item = Some itemID"
  shows "file_case pk driveID oldPaths invalidPrevDelta item collectionID collectionPath st =
     Inr ((if invalidPrevDelta then st
           else st\<lparr>excluded := insert (itemID @ MetaFileSuffix)
                                  (insert (itemID @ DataFileSuffix) (excluded st))\<rparr>)
          \<lparr>receiver := (receiver st)\<lparr>NumItems := NumItems (receiver st) + 1,
                                      NumFiles := NumFiles (receiver st) + 1\<rparr>\<rparr>)"
  using assms by (simp add: file_case_def)

lemma file_case_excluded:
  assumes ok: "file_case pk driveID oldPaths invalidPrevDelta item collectionID collectionPath st = Inr st'"
    and id: "GetId item = Some itemID"
  shows "excluded st' =
     (if invalidPrevDelta then excluded st
      else insert (itemID @ MetaFileSuffix) (insert (itemID @ DataFileSuffix) (excluded st)))"
proof (cases "GetDeleted item")
  case True
  from ok [unfolded file_case_deleted [OF True id]] have
    "st' = (if invalidPrevDelta then st
           else st\<lparr>excluded := insert (itemID @ MetaFileSuffix)
                                  (insert (itemID @ DataFileSuffix) (excluded st))\<rparr>)
          \<lparr>receiver := (receiver st)\<lparr>NumItems := NumItems (receiver st) + 1,
                                      NumFiles := NumFiles (receiver st) + 1\<rparr>\<rparr>"
    by simp
  then show ?thesis by simp
next
  case False
  from ok [unfolded file_case_upsert [OF False id]]
  have "excluded st' = excluded (if invalidPrevDelta then st
        else st\<lparr>excluded := insert (itemID @ MetaFileSuffix)
                               (insert (itemID @ DataFileSuffix) (excluded st))\<rparr>)"
    by (rule file_upsert_excluded [OF _ id])
  then show ?thesis by simp
qed

text \<open>
  \<^bold>\<open>C4.\<close> A file event (upsert or delete) that \<open>UpdateCollections\<close> processes: when
  \<open>invalidPrevDelta\<close> is false, the id with the suffix \<open>.data\<close> and the id with the suffix
  \<open>.meta\<close> are added to the exclusions; when it is true, the exclusions are unchanged.
\<close>

theorem file_event_exclusions:
  assumes "\<not> GetRoot item"
    and "parent_container oldPaths item = Inr (Some (collectionID, collectionPathStr))"
    and "item_paths pk (receiver st) item collectionPathStr = Inr (collectionPath, itemPath)"
    and "\<not> (shouldSkipDrive pk itemPath (matcher (receiver st)) driveName \<and>
           shouldSkipDrive pk (Some collectionPath) (matcher (receiver st)) driveName)"
    and "\<not> GetFolder item" and "\<not> GetPackage item" and "GetFile item"
    and "GetId item = Some itemID"
    and "UpdateCollections_item pk driveID driveName oldPaths invalidPrevDelta item st = Inr st'"
  shows "excluded st' =
     (if invalidPrevDelta then excluded st
      else insert (itemID @ ''.meta'') (insert (itemID @ ''.data'') (excluded st)))"
proof -
  have "file_case pk driveID oldPaths invalidPrevDelta item collectionID collectionPath st = Inr st'"
    using step_to_switch [OF assms(1-4)] assms(5-7,9) by (simp add: item_switch_def)
  from file_case_excluded [OF this assms(8)] show ?thesis
    by (simp add: MetaFileSuffix_def DataFileSuffix_def)
qed

text \<open>
  \<^bold>\<open>C7.\<close> A file upsert that \<open>UpdateCollections\<close> processes, for a file whose id
  \<open>itemCollection\<close> already maps to a container: when the event succeeds, the file is in
  the collection of its new container, it is no longer in the collection of the old
  container (when that is another one), and \<open>itemCollection\<close> maps it to the new
  container; and the event fails when the collection map has no collection for the old
  container, or that collection does not hold the file.
\<close>

theorem moved_file_leaves_previous_collection:
  assumes "\<not> GetRoot item"
    and "parent_container oldPaths item = Inr (Some (collectionID, collectionPathStr))"
    and "item_paths pk (receiver st) item collectionPathStr = Inr (collectionPath, itemPath)"
    and "\<not> (shouldSkipDrive pk itemPath (matcher (receiver st)) driveName \<and>
           shouldSkipDrive pk (Some collectionPath) (matcher (receiver st)) driveName)"
    and "\<not> GetFolder item" and "\<not> GetPackage item" and "GetFile item"
    and "\<not> GetDeleted item" and "GetId item = Some itemID"
    and "itemCollection st itemID = Some itemColID"
  shows "(\<forall>st'. UpdateCollections_item pk driveID driveName oldPaths invalidPrevDelta item st = Inr st' \<longrightarrow>
            (\<exists>collection. map_of (CollectionMap (receiver st')) collectionID = Some collection \<and>
               driveItems collection itemID = Some item) \<and>
            (itemColID \<noteq> collectionID \<longrightarrow>
               (\<exists>pcollection. map_of (CollectionMap (receiver st')) itemColID = Some pcollection \<and>
                  driveItems pcollection itemID = None)) \<and>
            itemCollection st' itemID = Some collectionID) \<and>
         ((map_of (CollectionMap (receiver st)) itemColID = None \<or>
           (\<exists>pcollection. map_of (CollectionMap (receiver st)) itemColID = Some pcollection \<and>
              driveItems pcollection itemID = None)) \<longrightarrow>
          (\<exists>e. UpdateCollections_item pk driveID driveName oldPaths invalidPrevDelta item st = Inl e))"
proof -
  define st1 where "st1 = (if invalidPrevDelta then st
        else st\<lparr>excluded := insert (itemID @ MetaFileSuffix)
                               (insert (itemID @ DataFileSuffix) (excluded st))\<rparr>)"
  have "UpdateCollections_item pk driveID driveName oldPaths invalidPrevDelta item st =
      file_case pk driveID oldPaths invalidPrevDelta item collectionID collectionPath st"
    using assms(5-7) by (simp add: step_to_switch [OF assms(1-4)] item_switch_def)
  then have step: "UpdateCollections_item pk driveID driveName oldPaths invalidPrevDelta item st =
      file_upsert pk driveID oldPaths invalidPrevDelta item collectionID collectionPath st1"
    by (simp only: file_case_upsert [OF assms(8,9)] st1_def)
  have rc: "receiver st1 = receiver st"
    by (simp add: st1_def)
  have ic: "itemCollection st1 itemID = Some itemColID"
    using assms(10) by (simp add: st1_def)
  show ?thesis
  proof (intro conjI allI impI)
    fix st'
    assume "UpdateCollections_item pk driveID driveName oldPaths invalidPrevDelta item st = Inr st'"
    then have ok: "file_upsert pk driveID oldPaths invalidPrevDelta item collectionID collectionPath st1 = Inr st'"
      by (simp only: step)
    from file_upsert_moved [OF ok assms(9) ic]
    show "\<exists>collection. map_of (CollectionMap (receiver st')) collectionID = Some collection \<and>
               driveItems collection itemID = Some item"
      and "itemCollection st' itemID = Some collectionID" by blast+
  next
    fix st'
    assume "UpdateCollections_item pk driveID driveName oldPaths invalidPrevDelta item st = Inr st'"
      and ne: "itemColID \<noteq> collectionID"
    then have ok: "file_upsert pk driveID oldPaths invalidPrevDelta item collectionID collectionPath st1 = Inr st'"
      by (simp only: step)
    from file_upsert_moved [OF ok assms(9) ic] ne
    show "\<exists>pcollection. map_of (CollectionMap (receiver st')) itemColID = Some pcollection \<and>
                  driveItems pcollection itemID = None" by blast
  next
    assume bad: "map_of (CollectionMap (receiver st)) itemColID = None \<or>
           (\<exists>pcollection. map_of (CollectionMap (receiver st)) itemColID = Some pcollection \<and>
              driveItems pcollection itemID = None)"
    show "\<exists>e. UpdateCollections_item pk driveID driveName oldPaths invalidPrevDelta item st = Inl e"
    proof (cases "file_upsert pk driveID oldPaths invalidPrevDelta item collectionID collectionPath st1")
      case (Inl e)
      with step show ?thesis by simp
    next
      case (Inr st')
      from file_upsert_moved [OF Inr assms(9) ic]
      have "\<exists>pcollection. map_of (CollectionMap (receiver st)) itemColID = Some pcollection \<and>
               driveItems pcollection itemID \<noteq> None"
        unfolding rc by blast
      with bad show ?thesis by force
    qed
  qed
qed


subsection \<open>The examples, evaluated\<close>

lemmas ex_defs = ex_receiver_def ex_oldPaths_def ex_state_def ex_folder_renamed_def
  ex_state_renamed_def ex_file_moved_def ex_file_def ex_coll_A_def ex_coll_C_def
  ex_state_file_in_A_def ex_state_file_in_C_def ex_pk_def ex_join_def

lemmas step_defs = UpdateCollections_item_def parent_container_def item_paths_def
  GetCanonicalPath_def shouldSkipDrive_def includePath_def item_switch_def folder_case_def
  previous_path_def folder_upsert_def updatePath_def updateCollectionPaths_def NewCollection_def
  StateOf_def Add_def Remove_def index_or_zero_def file_case_def file_upsert_def
  parent_collection_def remove_from_previous_def MetaFileSuffix_def DataFileSuffix_def
  no_parent_reference_def strings_Replace1.simps Let_def

lemma ex_folder_renamed_step:
  "UpdateCollections_item ex_pk ''d1'' ''drive'' ex_oldPaths False ex_folder_renamed ex_state =
     Inr ex_state_renamed"
  by (simp add: ex_defs step_defs)

lemma ex_file_step:
  "UpdateCollections_item ex_pk ''d1'' ''drive'' ex_oldPaths False ex_file ex_state =
     Inr ex_state_file_in_A"
  by (simp add: ex_defs step_defs)

lemma ex_file_moved_step:
  "UpdateCollections_item ex_pk ''d1'' ''drive'' ex_oldPaths False ex_file_moved
     ex_state_file_in_A = Inr ex_state_file_in_C"
  by (simp add: ex_defs step_defs insert_commute)

theorem moved_folder_rewrites_newPaths_witness:
  "\<not> GetRoot ex_folder_renamed \<and>
   parent_container ex_oldPaths ex_folder_renamed = Inr (Some (''root'', ''/drives/d1/root:'')) \<and>
   item_paths ex_pk (receiver ex_state) ex_folder_renamed ''/drives/d1/root:'' =
     Inr (''/drives/d1/root:'', Some ''/drives/d1/root:/A2'') \<and>
   \<not> (shouldSkipDrive ex_pk (Some ''/drives/d1/root:/A2'') (matcher (receiver ex_state)) ''drive'' \<and>
      shouldSkipDrive ex_pk (Some ''/drives/d1/root:'') (matcher (receiver ex_state)) ''drive'') \<and>
   (GetFolder ex_folder_renamed \<or> GetPackage ex_folder_renamed) \<and>
   \<not> GetDeleted ex_folder_renamed \<and>
   GetId ex_folder_renamed = Some ''A'' \<and>
   UpdateCollections_item ex_pk ''d1'' ''drive'' ex_oldPaths False ex_folder_renamed ex_state =
     Inr ex_state_renamed \<and>
   index_or_zero (newPaths ex_state) ''A'' = ''/drives/d1/root:/A'' \<and>
   ''/drives/d1/root:/A'' \<noteq> [] \<and>
   ''/drives/d1/root:/A'' \<noteq> String ex_pk ''/drives/d1/root:/A2'' \<and>
   keys (newPaths ex_state_renamed) = keys (newPaths ex_state) \<and>
   map_of (newPaths ex_state) ''B'' = Some ''/drives/d1/root:/A/B'' \<and>
   map_of (newPaths ex_state_renamed) ''B'' = Some ''/drives/d1/root:/A2/B'' \<and>
   map_of (newPaths ex_state) ''C'' = Some ''/drives/d1/root:/C'' \<and>
   map_of (newPaths ex_state_renamed) ''C'' = Some ''/drives/d1/root:/C''"
proof -
  have h1: "\<not> GetRoot ex_folder_renamed"
    by (simp add: ex_defs)
  have h2: "parent_container ex_oldPaths ex_folder_renamed =
      Inr (Some (''root'', ''/drives/d1/root:''))"
    by (simp add: ex_defs step_defs)
  have h3: "item_paths ex_pk (receiver ex_state) ex_folder_renamed ''/drives/d1/root:'' =
      Inr (''/drives/d1/root:'', Some ''/drives/d1/root:/A2'')"
    by (simp add: ex_defs step_defs)
  have h4: "\<not> (shouldSkipDrive ex_pk (Some ''/drives/d1/root:/A2'') (matcher (receiver ex_state)) ''drive'' \<and>
      shouldSkipDrive ex_pk (Some ''/drives/d1/root:'') (matcher (receiver ex_state)) ''drive'')"
    by (simp add: ex_defs step_defs)
  have h5: "GetFolder ex_folder_renamed \<or> GetPackage ex_folder_renamed"
    and h6: "\<not> GetDeleted ex_folder_renamed"
    and h7: "GetId ex_folder_renamed = Some ''A''"
    by (simp_all add: ex_defs)
  have h9: "index_or_zero (newPaths ex_state) ''A'' = ''/drives/d1/root:/A''"
    by (simp add: ex_defs step_defs)
  have h10: "''/drives/d1/root:/A'' \<noteq> []"
    and h11: "''/drives/d1/root:/A'' \<noteq> String ex_pk ''/drives/d1/root:/A2''"
    by (simp_all add: ex_defs)
  have b: "map_of (newPaths ex_state) ''B'' = Some ''/drives/d1/root:/A/B''"
    and c: "map_of (newPaths ex_state) ''C'' = Some ''/drives/d1/root:/C''"
    by (simp_all add: ex_defs)
  note concl = moved_folder_rewrites_newPaths
    [OF h1 h2 h3 h4 h5 h6 h7 ex_folder_renamed_step h9 h10 h11]
  from concl have k: "keys (newPaths ex_state_renamed) = keys (newPaths ex_state)"
    by blast
  from concl b have b': "map_of (newPaths ex_state_renamed) ''B'' = Some ''/drives/d1/root:/A2/B''"
    by (simp add: ex_pk_def)
  from concl c have c': "map_of (newPaths ex_state_renamed) ''C'' = Some ''/drives/d1/root:/C''"
    by (simp add: ex_pk_def)
  from h1 h2 h3 h4 h5 h6 h7 ex_folder_renamed_step h9 h10 h11 k b b' c c'
  show ?thesis by blast
qed

theorem file_event_exclusions_witness:
  "\<not> GetRoot ex_file \<and>
   parent_container ex_oldPaths ex_file = Inr (Some (''A'', ''/drives/d1/root:/A'')) \<and>
   item_paths ex_pk (receiver ex_state) ex_file ''/drives/d1/root:/A'' =
     Inr (''/drives/d1/root:/A'', Some ''/drives/d1/root:/A/report.txt'') \<and>
   \<not> (shouldSkipDrive ex_pk (Some ''/drives/d1/root:/A/report.txt'') (matcher (receiver ex_state))
        ''drive'' \<and>
      shouldSkipDrive ex_pk (Some ''/drives/d1/root:/A'') (matcher (receiver ex_state)) ''drive'') \<and>
   \<not> GetFolder ex_file \<and> \<not> GetPackage ex_file \<and> GetFile ex_file \<and>
   GetId ex_file = Some ''f1'' \<and>
   UpdateCollections_item ex_pk ''d1'' ''drive'' ex_oldPaths False ex_file ex_state =
     Inr ex_state_file_in_A \<and>
   excluded ex_state = {} \<and>
   excluded ex_state_file_in_A = {''f1.meta'', ''f1.data''}"
proof -
  have h1: "\<not> GetRoot ex_file"
    by (simp add: ex_defs)
  have h2: "parent_container ex_oldPaths ex_file = Inr (Some (''A'', ''/drives/d1/root:/A''))"
    by (simp add: ex_defs step_defs)
  have h3: "item_paths ex_pk (receiver ex_state) ex_file ''/drives/d1/root:/A'' =
     Inr (''/drives/d1/root:/A'', Some ''/drives/d1/root:/A/report.txt'')"
    by (simp add: ex_defs step_defs)
  have h4: "\<not> (shouldSkipDrive ex_pk (Some ''/drives/d1/root:/A/report.txt'')
        (matcher (receiver ex_state)) ''drive'' \<and>
      shouldSkipDrive ex_pk (Some ''/drives/d1/root:/A'') (matcher (receiver ex_state)) ''drive'')"
    by (simp add: ex_defs step_defs)
  have h5: "\<not> GetFolder ex_file" and h6: "\<not> GetPackage ex_file" and h7: "GetFile ex_file"
    and h8: "GetId ex_file = Some ''f1''"
    by (simp_all add: ex_defs)
  have e0: "excluded ex_state = {}"
    by (simp add: ex_defs)
  from file_event_exclusions [OF h1 h2 h3 h4 h5 h6 h7 h8 ex_file_step] e0
  have "excluded ex_state_file_in_A = {''f1.meta'', ''f1.data''}"
    by simp
  with h1 h2 h3 h4 h5 h6 h7 h8 ex_file_step e0 show ?thesis by blast
qed

lemma ex_file_moved_missing:
  "UpdateCollections_item ex_pk ''d1'' ''drive'' ex_oldPaths False ex_file_moved
     (ex_state_file_in_A\<lparr>receiver := ex_receiver\<rparr>) = Inl ErrPrevCollectionNotFound"
  by (simp add: ex_defs step_defs)

theorem moved_file_leaves_previous_collection_witness:
  "\<not> GetRoot ex_file_moved \<and>
   parent_container ex_oldPaths ex_file_moved = Inr (Some (''C'', ''/drives/d1/root:/C'')) \<and>
   item_paths ex_pk ex_receiver ex_file_moved ''/drives/d1/root:/C'' =
     Inr (''/drives/d1/root:/C'', Some ''/drives/d1/root:/C/report.txt'') \<and>
   \<not> (shouldSkipDrive ex_pk (Some ''/drives/d1/root:/C/report.txt'') (matcher ex_receiver)
        ''drive'' \<and>
      shouldSkipDrive ex_pk (Some ''/drives/d1/root:/C'') (matcher ex_receiver) ''drive'') \<and>
   \<not> GetFolder ex_file_moved \<and> \<not> GetPackage ex_file_moved \<and> GetFile ex_file_moved \<and>
   \<not> GetDeleted ex_file_moved \<and> GetId ex_file_moved = Some ''f1'' \<and>
   itemCollection ex_state_file_in_A ''f1'' = Some ''A'' \<and>
   UpdateCollections_item ex_pk ''d1'' ''drive'' ex_oldPaths False ex_file_moved
     ex_state_file_in_A = Inr ex_state_file_in_C \<and>
   map_of (CollectionMap (receiver ex_state_file_in_C)) ''C'' =
     Some (ex_coll_C\<lparr>driveItems := [''f1'' \<mapsto> ex_file_moved]\<rparr>) \<and>
   map_of (CollectionMap (receiver ex_state_file_in_C)) ''A'' = Some ex_coll_A \<and>
   driveItems ex_coll_A ''f1'' = None \<and>
   itemCollection ex_state_file_in_C ''f1'' = Some ''C'' \<and>
   map_of (CollectionMap (receiver (ex_state_file_in_A\<lparr>receiver := ex_receiver\<rparr>))) ''A'' = None \<and>
   UpdateCollections_item ex_pk ''d1'' ''drive'' ex_oldPaths False ex_file_moved
     (ex_state_file_in_A\<lparr>receiver := ex_receiver\<rparr>) = Inl ErrPrevCollectionNotFound"
proof -
  have h1: "\<not> GetRoot ex_file_moved"
    by (simp add: ex_defs)
  have h2: "parent_container ex_oldPaths ex_file_moved = Inr (Some (''C'', ''/drives/d1/root:/C''))"
    by (simp add: ex_defs step_defs)
  have h3: "item_paths ex_pk ex_receiver ex_file_moved ''/drives/d1/root:/C'' =
     Inr (''/drives/d1/root:/C'', Some ''/drives/d1/root:/C/report.txt'')"
    by (simp add: ex_defs step_defs)
  have h4: "\<not> (shouldSkipDrive ex_pk (Some ''/drives/d1/root:/C/report.txt'') (matcher ex_receiver)
        ''drive'' \<and>
      shouldSkipDrive ex_pk (Some ''/drives/d1/root:/C'') (matcher ex_receiver) ''drive'')"
    by (simp add: ex_defs step_defs)
  have h5: "\<not> GetFolder ex_file_moved" and h6: "\<not> GetPackage ex_file_moved"
    and h7: "GetFile ex_file_moved" and h8: "\<not> GetDeleted ex_file_moved"
    and h9: "GetId ex_file_moved = Some ''f1''"
    by (simp_all add: ex_defs)
  have h10: "itemCollection ex_state_file_in_A ''f1'' = Some ''A''"
    by (simp add: ex_defs)
  have r1: "receiver ex_state_file_in_A =
      ex_receiver\<lparr>CollectionMap := [(''A'', ex_coll_A\<lparr>driveItems := [''f1'' \<mapsto> ex_file]\<rparr>)],
          NumItems := 1, NumFiles := 1, NumContainers := 1\<rparr>"
    by (simp add: ex_state_file_in_A_def)
  have h3': "item_paths ex_pk (receiver ex_state_file_in_A) ex_file_moved ''/drives/d1/root:/C'' =
     Inr (''/drives/d1/root:/C'', Some ''/drives/d1/root:/C/report.txt'')"
    by (simp add: ex_defs step_defs)
  have h4': "\<not> (shouldSkipDrive ex_pk (Some ''/drives/d1/root:/C/report.txt'')
        (matcher (receiver ex_state_file_in_A)) ''drive'' \<and>
      shouldSkipDrive ex_pk (Some ''/drives/d1/root:/C'') (matcher (receiver ex_state_file_in_A))
        ''drive'')"
    by (simp add: ex_defs step_defs)
  have m: "map_of (CollectionMap (receiver (ex_state_file_in_A\<lparr>receiver := ex_receiver\<rparr>))) ''A'' = None"
    by (simp add: ex_defs)
  have c: "map_of (CollectionMap (receiver ex_state_file_in_C)) ''C'' =
     Some (ex_coll_C\<lparr>driveItems := [''f1'' \<mapsto> ex_file_moved]\<rparr>)"
    and a: "map_of (CollectionMap (receiver ex_state_file_in_C)) ''A'' = Some ex_coll_A"
    and a': "driveItems ex_coll_A ''f1'' = None"
    by (simp_all add: ex_state_file_in_C_def ex_coll_A_def)
  note concl = moved_file_leaves_previous_collection
    [OF h1 h2 h3' h4' h5 h6 h7 h8 h9 h10, of "''d1''" False]
  from concl ex_file_moved_step
  have i: "itemCollection ex_state_file_in_C ''f1'' = Some ''C''"
    by blast
  from h1 h2 h3 h4 h5 h6 h7 h8 h9 h10 ex_file_moved_step c a a' i m ex_file_moved_missing
  show ?thesis by blast
qed


section \<open>Collections.Get\<close>



lemma set_update_subset: "set (AList.update k v m) \<subseteq> insert (k, v) (set m)"
  by (induction m) auto

lemma Get_drive_inv:
  assumes "Get_drive pk collectItems prevDeltas oldPathsByDriveID d st = Inr st'"
  shows "\<exists>driveID. drive_GetId d = Some driveID \<and>
           keys (folderPaths st') = insert driveID (keys (folderPaths st)) \<and>
           set (deltaURLs st') \<subseteq> set (deltaURLs st) \<union> {(k, v). k = driveID \<and> v \<noteq> []} \<and>
           keys (deltaURLs st') \<subseteq> insert driveID (keys (deltaURLs st))"
proof (cases "drive_GetId d")
  case None
  with assms show ?thesis by (simp add: Get_drive_def)
next
  case id: (Some driveID)
  show ?thesis
  proof (cases "drive_GetName d")
    case None
    with assms id show ?thesis by (simp add: Get_drive_def)
  next
    case name: (Some driveName)
    show ?thesis
    proof (cases "collectItems driveID driveName (index_or_zero oldPathsByDriveID driveID)
                    (index_or_zero prevDeltas driveID) (collections st)")
      case (Inl e)
      with assms id name show ?thesis by (simp add: Get_drive_def Let_def)
    next
      case (Inr r)
      obtain delta paths excluded' c where r: "r = (delta, paths, excluded', c)"
        by (cases r)
      define du where "du = (if length (URL delta) > 0
                               then AList.update driveID (URL delta) (deltaURLs st)
                               else deltaURLs st)"
      define fp where "fp = AList.update driveID (maps_Copy [] paths) (folderPaths st)"
      have st': "deltaURLs st' = du \<and> folderPaths st' = fp"
      proof (cases "Reset delta")
        case False
        with assms id name Inr r show ?thesis
          by (auto simp: Get_drive_def Let_def du_def fp_def)
      next
        case True
        with assms id name Inr r show ?thesis
          by (auto simp: Get_drive_def Let_def du_def fp_def split: sum.splits)
      qed
      have 1: "keys fp = insert driveID (keys (folderPaths st))"
        by (simp add: fp_def keys_update)
      have 2: "set du \<subseteq> set (deltaURLs st) \<union> {(k, v). k = driveID \<and> v \<noteq> []}"
        using set_update_subset [of driveID "URL delta" "deltaURLs st"]
        by (auto simp: du_def)
      have 3: "keys du \<subseteq> insert driveID (keys (deltaURLs st))"
        by (auto simp: du_def keys_update)
      from id st' 1 2 3 show ?thesis by simp
    qed
  qed
qed

lemma Get_drives_inv:
  assumes "Get_drives pk collectItems prevDeltas oldPathsByDriveID ds st = Inr st'"
    and "keys (deltaURLs st) \<subseteq> keys (folderPaths st)"
    and "\<forall>(k, v) \<in> set (deltaURLs st). v \<noteq> []"
  shows "keys (deltaURLs st') \<subseteq> keys (folderPaths st') \<and>
         (\<forall>(k, v) \<in> set (deltaURLs st'). v \<noteq> []) \<and>
         keys (folderPaths st') = keys (folderPaths st) \<union> {i. \<exists>d \<in> set ds. drive_GetId d = Some i}"
  using assms
proof (induction ds arbitrary: st)
  case Nil
  then show ?case by simp
next
  case (Cons d ds)
  from Cons.prems(1) obtain st1 where
    d: "Get_drive pk collectItems prevDeltas oldPathsByDriveID d st = Inr st1" and
    rest: "Get_drives pk collectItems prevDeltas oldPathsByDriveID ds st1 = Inr st'"
    by (auto split: sum.splits)
  from Get_drive_inv [OF d] obtain driveID where
    id: "drive_GetId d = Some driveID" and
    fp: "keys (folderPaths st1) = insert driveID (keys (folderPaths st))" and
    du: "set (deltaURLs st1) \<subseteq> set (deltaURLs st) \<union> {(k, v). k = driveID \<and> v \<noteq> []}" and
    dk: "keys (deltaURLs st1) \<subseteq> insert driveID (keys (deltaURLs st))"
    by blast
  have a: "keys (deltaURLs st1) \<subseteq> keys (folderPaths st1)"
    using dk fp Cons.prems(2) by auto
  have b: "\<forall>(k, v) \<in> set (deltaURLs st1). v \<noteq> []"
    using du Cons.prems(3) by auto
  from Cons.IH [OF rest a b] fp id show ?case by auto
qed



lemma map_of_delete_absent: "map_of paths i = None \<Longrightarrow> map_of (AList.delete i paths) = map_of paths"
  by (simp add: delete_conv' fun_eq_iff)

lemma deleted_folders_cong:
  "map_of paths = map_of paths' \<Longrightarrow>
   deleted_folders pk driveID src es paths modifiedPaths cmap =
   deleted_folders pk driveID src es paths' modifiedPaths cmap"
proof (induction es arbitrary: paths paths' cmap)
  case Nil
  then show ?case by simp
next
  case (Cons e es)
  obtain i p where e: "e = (i, p)" by (cases e)
  have d: "map_of (AList.delete i paths) = map_of (AList.delete i paths')"
    using Cons.prems by (simp add: delete_conv')
  show ?case
    using Cons.prems Cons.IH [OF Cons.prems] Cons.IH [OF d]
    by (simp add: e split: sum.splits)
qed

lemma deleted_folders_step:
  "deleted_folders pk driveID src ((i, p) # es) paths modifiedPaths cmap =
     (if map_of paths i \<noteq> None \<or> p \<in> modifiedPaths then
        deleted_folders pk driveID src es paths modifiedPaths cmap
      else
        (case FromDataLayerPath pk p False of
           Inl e \<Rightarrow> Inl (Wrapped ''invalid previous path'' e)
         | Inr prevPath' \<Rightarrow>
             deleted_folders pk driveID src es paths modifiedPaths
               (AList.update i (NewCollection pk None (Some prevPath') driveID src True)
                  cmap)))"
proof (cases "map_of paths i \<noteq> None \<or> p \<in> modifiedPaths")
  case True
  then show ?thesis by auto
next
  case False
  then have "map_of (AList.delete i paths) = map_of paths"
    by (simp add: map_of_delete_absent)
  with False show ?thesis
    by (simp add: deleted_folders_cong [of "AList.delete i paths" paths] split: sum.splits)
qed

lemma deleted_folders_other:
  assumes "deleted_folders pk driveID src es paths modifiedPaths cmap = Inr cmap'"
    and "\<forall>p. (i, p) \<in> set es \<longrightarrow> map_of paths i \<noteq> None \<or> p \<in> modifiedPaths"
  shows "map_of cmap' i = map_of cmap i"
  using assms
proof (induction es arbitrary: cmap)
  case Nil
  then show ?case by simp
next
  case (Cons e es)
  obtain j p where e: "e = (j, p)" by (cases e)
  show ?case
  proof (cases "map_of paths j \<noteq> None \<or> p \<in> modifiedPaths")
    case True
    with Cons.prems(1) have "deleted_folders pk driveID src es paths modifiedPaths cmap = Inr cmap'"
      by (simp only: e deleted_folders_step if_True)
    from Cons.IH [OF this] Cons.prems(2) show ?thesis by simp
  next
    case False
    with Cons.prems(1) obtain pp where
      pp: "FromDataLayerPath pk p False = Inr pp" and
      run: "deleted_folders pk driveID src es paths modifiedPaths
              (AList.update j (NewCollection pk None (Some pp) driveID src True) cmap) = Inr cmap'"
      by (simp only: e deleted_folders_step if_False split: sum.splits) auto
    from False Cons.prems(2) have "i \<noteq> j" by (auto simp: e)
    with Cons.IH [OF run] Cons.prems(2) show ?thesis
      by (simp add: update_conv')
  qed
qed

lemma deleted_folders_marked:
  assumes "deleted_folders pk driveID src es paths modifiedPaths cmap = Inr cmap'"
    and "distinct (map fst es)"
    and "(i, p) \<in> set es" and "map_of paths i = None" and "p \<notin> modifiedPaths"
  shows "\<exists>pp. FromDataLayerPath pk p False = Inr pp \<and>
           map_of cmap' i = Some (NewCollection pk None (Some pp) driveID src True)"
  using assms
proof (induction es arbitrary: cmap)
  case Nil
  then show ?case by simp
next
  case (Cons e es)
  obtain j q where e: "e = (j, q)" by (cases e)
  show ?case
  proof (cases "(i, p) = (j, q)")
    case True
    with Cons.prems(1,4,5) obtain pp where
      pp: "FromDataLayerPath pk p False = Inr pp" and
      run: "deleted_folders pk driveID src es paths modifiedPaths
              (AList.update i (NewCollection pk None (Some pp) driveID src True) cmap) = Inr cmap'"
      by (simp only: e deleted_folders_step split: sum.splits) auto
    have "\<forall>p'. (i, p') \<in> set es \<longrightarrow> map_of paths i \<noteq> None \<or> p' \<in> modifiedPaths"
      using Cons.prems(2) True by (force simp: e)
    from deleted_folders_other [OF run this] pp show ?thesis
      by (simp add: update_conv')
  next
    case False
    with Cons.prems(3) have mem: "(i, p) \<in> set es" by (auto simp: e)
    from Cons.prems(2) have dist: "distinct (map fst es)" by simp
    show ?thesis
    proof (cases "map_of paths j \<noteq> None \<or> q \<in> modifiedPaths")
      case True
      with Cons.prems(1) have "deleted_folders pk driveID src es paths modifiedPaths cmap = Inr cmap'"
        by (simp only: e deleted_folders_step if_True)
      from Cons.IH [OF this dist mem Cons.prems(4,5)] show ?thesis .
    next
      case F: False
      with Cons.prems(1) obtain qq where
        run: "deleted_folders pk driveID src es paths modifiedPaths
              (AList.update j (NewCollection pk None (Some qq) driveID src True) cmap) = Inr cmap'"
        by (simp only: e deleted_folders_step if_False split: sum.splits) auto
      from Cons.IH [OF run dist mem Cons.prems(4,5)] show ?thesis .
    qed
  qed
qed


lemma modified_paths_Inr:
  "modified_paths pk cmap = Inr modifiedPaths \<Longrightarrow>
   modifiedPaths = {String pk fullPath |fullPath. \<exists>i col. (i, col) \<in> set cmap \<and> folderPath col = Some fullPath}"
proof (induction cmap arbitrary: modifiedPaths)
  case Nil
  then show ?case by simp
next
  case (Cons e cmap)
  obtain i col where e: "e = (i, col)" by (cases e)
  from Cons.prems obtain fullPath rest where
    fp: "folderPath col = Some fullPath" and
    rest: "modified_paths pk cmap = Inr rest" and
    m: "modifiedPaths = insert (String pk fullPath) rest"
    by (auto simp: e split: option.splits sum.splits)
  from Cons.IH [OF rest] fp m show ?case
    by (auto simp: e)
qed

lemma distinct_map_of_iff: "distinct (map fst es) \<Longrightarrow> map_of es i = Some p \<longleftrightarrow> (i, p) \<in> set es"
  by simp

lemma tombstone_fields:
  "folderPath (NewCollection pk None (Some pp) driveID src dnm) = None \<and>
   prevPath (NewCollection pk None (Some pp) driveID src dnm) = Some pp \<and>
   state (NewCollection pk None (Some pp) driveID src dnm) = DeletedState \<and>
   doNotMergeItems (NewCollection pk None (Some pp) driveID src dnm) = dnm"
  by (simp add: NewCollection_def StateOf_def)

lemma Get_drive_reset:
  assumes "drive_GetId d = Some driveID" and "drive_GetName d = Some driveName"
    and "collectItems driveID driveName (index_or_zero oldPathsByDriveID driveID)
           (index_or_zero prevDeltas driveID) (collections st) = Inr (delta, paths, excluded', c)"
    and "Get_drive pk collectItems prevDeltas oldPathsByDriveID d st = Inr st'"
    and "Reset delta"
  shows "\<exists>modifiedPaths cmap.
           modified_paths pk (CollectionMap c) = Inr modifiedPaths \<and>
           deleted_folders pk driveID (source c) (index_or_zero oldPathsByDriveID driveID) paths
             modifiedPaths (CollectionMap c) = Inr cmap \<and>
           collections st' = c\<lparr>CollectionMap := cmap\<rparr>"
proof (cases "modified_paths pk (CollectionMap c)")
  case (Inl e)
  with assms show ?thesis by (simp add: Get_drive_def Let_def)
next
  case m: (Inr modifiedPaths)
  show ?thesis
  proof (cases "deleted_folders pk driveID (source c) (index_or_zero oldPathsByDriveID driveID) paths
             modifiedPaths (CollectionMap c)")
    case (Inl e)
    with assms m show ?thesis by (simp add: Get_drive_def Let_def)
  next
    case (Inr cmap)
    with assms m show ?thesis by (auto simp: Get_drive_def Let_def)
  qed
qed

lemma Get_drive_no_reset:
  assumes "drive_GetId d = Some driveID" and "drive_GetName d = Some driveName"
    and "collectItems driveID driveName (index_or_zero oldPathsByDriveID driveID)
           (index_or_zero prevDeltas driveID) (collections st) = Inr (delta, paths, excluded', c)"
    and "Get_drive pk collectItems prevDeltas oldPathsByDriveID d st = Inr st'"
    and "\<not> Reset delta"
  shows "collections st' = c \<and> excludedItems st' = excludedItems st \<union> excluded'"
  using assms by (auto simp: Get_drive_def Let_def)

text \<open>
  What the loop of \<open>Get\<close> after the enumeration of a drive does when it runs to its end.
  For a drive that \<open>Get\<close> processes without error, with the keys of its previous paths
  distinct (they are the keys of a Go map): when the enumeration reports a reset, every
  container id that the previous paths have and the new paths lack, and whose previous
  path is not the full path of a collection in the collection map, gets a collection
  made from its previous path with no current path, in state Deleted, and the collection
  map is unchanged at every other id; when the enumeration reports no reset, \<open>Get\<close>
  leaves the collections as the enumeration returned them (in such a run it is the
  folder case of \<open>UpdateCollections\<close> that makes the collection of a deleted folder).
\<close>

lemma reset_marks_deleted_folders:
  assumes "drive_GetId d = Some driveID" and "drive_GetName d = Some driveName"
    and "collectItems driveID driveName (index_or_zero oldPathsByDriveID driveID)
           (index_or_zero prevDeltas driveID) (collections st) = Inr (delta, paths, excluded', c)"
    and "Get_drive pk collectItems prevDeltas oldPathsByDriveID d st = Inr st'"
    and "distinct (map fst (index_or_zero oldPathsByDriveID driveID))"
  shows "(Reset delta \<longrightarrow>
           (\<forall>i p. map_of (index_or_zero oldPathsByDriveID driveID) i = Some p \<and>
                  map_of paths i = None \<and>
                  p \<notin> {String pk fullPath |fullPath.
                         \<exists>j col. (j, col) \<in> set (CollectionMap c) \<and> folderPath col = Some fullPath} \<longrightarrow>
              (\<exists>pp col. FromDataLayerPath pk p False = Inr pp \<and>
                 map_of (CollectionMap (collections st')) i = Some col \<and>
                 col = NewCollection pk None (Some pp) driveID (source c) True \<and>
                 folderPath col = None \<and> prevPath col = Some pp \<and> state col = DeletedState)) \<and>
           (\<forall>i. (\<forall>p. map_of (index_or_zero oldPathsByDriveID driveID) i = Some p \<longrightarrow>
                    map_of paths i \<noteq> None \<or>
                    p \<in> {String pk fullPath |fullPath.
                         \<exists>j col. (j, col) \<in> set (CollectionMap c) \<and> folderPath col = Some fullPath}) \<longrightarrow>
              map_of (CollectionMap (collections st')) i = map_of (CollectionMap c) i)) \<and>
         (\<not> Reset delta \<longrightarrow> collections st' = c)"
proof (intro conjI impI allI)
  assume "\<not> Reset delta"
  from Get_drive_no_reset [OF assms(1-4) this] show "collections st' = c" by simp
next
  fix i p
  assume r: "Reset delta"
    and a: "map_of (index_or_zero oldPathsByDriveID driveID) i = Some p \<and>
                  map_of paths i = None \<and>
                  p \<notin> {String pk fullPath |fullPath.
                         \<exists>j col. (j, col) \<in> set (CollectionMap c) \<and> folderPath col = Some fullPath}"
  from Get_drive_reset [OF assms(1-4) r] obtain modifiedPaths cmap where
    m: "modified_paths pk (CollectionMap c) = Inr modifiedPaths" and
    df: "deleted_folders pk driveID (source c) (index_or_zero oldPathsByDriveID driveID) paths
             modifiedPaths (CollectionMap c) = Inr cmap" and
    st': "collections st' = c\<lparr>CollectionMap := cmap\<rparr>"
    by blast
  note mp = modified_paths_Inr [OF m]
  from a have mem: "(i, p) \<in> set (index_or_zero oldPathsByDriveID driveID)"
    by (simp add: distinct_map_of_iff [OF assms(5)])
  from a mp have "map_of paths i = None" and "p \<notin> modifiedPaths" by simp_all
  from deleted_folders_marked [OF df assms(5) mem this] obtain pp where
    "FromDataLayerPath pk p False = Inr pp" and
    "map_of cmap i = Some (NewCollection pk None (Some pp) driveID (source c) True)"
    by blast
  then show "\<exists>pp col. FromDataLayerPath pk p False = Inr pp \<and>
                 map_of (CollectionMap (collections st')) i = Some col \<and>
                 col = NewCollection pk None (Some pp) driveID (source c) True \<and>
                 folderPath col = None \<and> prevPath col = Some pp \<and> state col = DeletedState"
    by (simp add: st' tombstone_fields)
next
  fix i
  assume r: "Reset delta"
    and a: "\<forall>p. map_of (index_or_zero oldPathsByDriveID driveID) i = Some p \<longrightarrow>
                    map_of paths i \<noteq> None \<or>
                    p \<in> {String pk fullPath |fullPath.
                         \<exists>j col. (j, col) \<in> set (CollectionMap c) \<and> folderPath col = Some fullPath}"
  from Get_drive_reset [OF assms(1-4) r] obtain modifiedPaths cmap where
    m: "modified_paths pk (CollectionMap c) = Inr modifiedPaths" and
    df: "deleted_folders pk driveID (source c) (index_or_zero oldPathsByDriveID driveID) paths
             modifiedPaths (CollectionMap c) = Inr cmap" and
    st': "collections st' = c\<lparr>CollectionMap := cmap\<rparr>"
    by blast
  note mp = modified_paths_Inr [OF m]
  have "\<forall>p. (i, p) \<in> set (index_or_zero oldPathsByDriveID driveID) \<longrightarrow>
          map_of paths i \<noteq> None \<or> p \<in> modifiedPaths"
    using a unfolding mp by (simp add: distinct_map_of_iff [OF assms(5)])
  from deleted_folders_other [OF df this] show
    "map_of (CollectionMap (collections st')) i = map_of (CollectionMap c) i"
    by (simp add: st')
qed

text \<open>
  \<^bold>\<open>C1.\<close> As amended. For every run of \<open>Get\<close> that completes without error: every drive
  id with an entry in the persisted delta-URLs map has an entry in the persisted
  folder-paths map, no persisted delta token is empty, and the persisted folder-paths
  map has an entry for exactly the drives that were enumerated.
\<close>

theorem persisted_delta_keys_within_paths:
  assumes "Get pk (Inr drives) collectItems prevMetadata c = Inr st"
  shows "keys (deltaURLs st) \<subseteq> keys (folderPaths st) \<and>
         (\<forall>k v. (k, v) \<in> set (deltaURLs st) \<longrightarrow> v \<noteq> []) \<and>
         keys (folderPaths st) = {i. \<exists>d \<in> set drives. drive_GetId d = Some i}"
proof -
  from assms obtain prevDeltas oldPathsByDriveID where
    "Get_drives pk collectItems prevDeltas oldPathsByDriveID drives
       \<lparr> collections = c, deltaURLs = [], folderPaths = [], excludedItems = {} \<rparr> = Inr st"
    by (auto simp: Get_def split: sum.splits prod.splits)
  from Get_drives_inv [OF this] show ?thesis by auto
qed


lemmas get_defs = Get_def Get_drive_def deserializeMetadata_def deserializeMap_def
  PreviousPathFileName_def DeltaURLsFileName_def index_or_zero_def Let_def NewCollection_def
  StateOf_def

lemmas ex_get_defs = ex_drive_def ex_collect_no_token_def ex_collect_no_reset_def
  ex_tombstone_A_def ex_get_start_def ex_metadata_def ex_receiver_def ex_pk_def

lemma ex_get_token:
  "Get ex_pk (Inr [ex_drive]) ex_collect_no_reset ex_metadata ex_receiver =
     Inr \<lparr> collections = ex_receiver, deltaURLs = [(''d1'', ''token2'')],
           folderPaths = [(''d1'', [(''root'', ''/drives/d1/root:'')])], excludedItems = {} \<rparr>"
  by (simp add: get_defs ex_get_defs)

theorem persisted_delta_keys_within_paths_witness:
  "Get ex_pk (Inr [ex_drive]) ex_collect_no_reset ex_metadata ex_receiver =
     Inr \<lparr> collections = ex_receiver, deltaURLs = [(''d1'', ''token2'')],
           folderPaths = [(''d1'', [(''root'', ''/drives/d1/root:'')])], excludedItems = {} \<rparr> \<and>
   keys [(''d1'', ''token2'')] \<subseteq> keys [(''d1'', [(''root'', ''/drives/d1/root:'')])] \<and>
   keys [(''d1'', [(''root'', ''/drives/d1/root:'')])] = {''d1''}"
  using persisted_delta_keys_within_paths [OF ex_get_token] ex_get_token
  by simp

text \<open>
  The claim as stated fails: when the enumeration of a drive returns an empty delta token,
  the drive has an entry in the persisted folder-paths map and none in the persisted
  delta-URLs map.
\<close>

theorem persisted_keys_counterexample:
  "Get ex_pk (Inr [ex_drive]) ex_collect_no_token [] ex_receiver =
     Inr \<lparr> collections = ex_receiver, deltaURLs = [],
           folderPaths = [(''d1'', [(''root'', ''/drives/d1/root:'')])], excludedItems = {} \<rparr> \<and>
   keys ([] :: deltas) = {} \<and>
   keys [(''d1'', [(''root'', ''/drives/d1/root:'')])] = {''d1''}"
  by (simp add: get_defs ex_get_defs)

section \<open>A collection without a current path in the collection map\<close>

text \<open>
  The loop that fills \<open>modifiedPaths\<close> calls \<open>FullPath().String()\<close> on every collection of
  the collection map, which the drives of one run share. A collection in state Deleted
  has no full path. Once the map holds one, made by \<open>UpdateCollections\<close> for a deleted
  folder or by \<open>Get\<close> itself for an earlier drive, \<open>Get\<close> panics at the next drive whose
  enumeration reports a reset.
\<close>

lemma modified_paths_panics:
  "(i, col) \<in> set cmap \<Longrightarrow> folderPath col = None \<Longrightarrow>
   modified_paths pk cmap = Inl PanicNilDereference"
proof (induction cmap)
  case Nil
  then show ?case by simp
next
  case (Cons e cmap)
  obtain j col' where e: "e = (j, col')" by (cases e)
  show ?case
  proof (cases "folderPath col'")
    case None
    then show ?thesis by (simp add: e)
  next
    case (Some fullPath)
    with Cons.prems e have "(i, col) \<in> set cmap" by auto
    from Cons.IH [OF this Cons.prems(2)] Some show ?thesis by (simp add: e)
  qed
qed

lemma Get_drive_panics:
  assumes "drive_GetId d = Some driveID" and "drive_GetName d = Some driveName"
    and "collectItems driveID driveName (index_or_zero oldPathsByDriveID driveID)
           (index_or_zero prevDeltas driveID) (collections st) = Inr (delta, paths, excluded', c)"
    and "Reset delta"
    and "(i, col) \<in> set (CollectionMap c)" and "folderPath col = None"
  shows "Get_drive pk collectItems prevDeltas oldPathsByDriveID d st = Inl PanicNilDereference"
  using assms(1-4) modified_paths_panics [OF assms(5,6), of pk]
  by (simp add: Get_drive_def Let_def)

lemmas run_defs = Get_def Get_drive_def deserializeMetadata_def deserializeMap_def
  PreviousPathFileName_def DeltaURLsFileName_def collect_items_def rootDrivePattern_def

lemmas ex_run_defs = ex_drive_def ex_drive2_def ex_previous_def ex_root_def
  ex_folder_deleted_def ex_pager_reset_def ex_pager_delete_def ex_tombstone_A_def
  ex_tombstone_B_def ex_get_start_def ex_receiver_def ex_pk_def ex_join_def

text \<open>The two lemmas above at the first drive of the example run, whose enumeration was
  reset, and at the second.\<close>

lemma ex_first_drive_collected:
  "collect_items ex_pk ex_pager_reset ''d1'' ''drive''
       (index_or_zero ex_previous_paths ''d1'') (index_or_zero ex_previous_deltas ''d1'')
       (collections ex_get_start) =
     Inr (\<lparr> URL = ''token2'', Reset = True \<rparr>, [(''d1-root'', ''/drives/d1/root:'')], {},
          ex_receiver)"
  by (simp add: run_defs ex_run_defs ex_previous_paths_def ex_previous_deltas_def step_defs)

lemma ex_first_drive:
  "Get_drive ex_pk (collect_items ex_pk ex_pager_reset) ex_previous_deltas ex_previous_paths
      ex_drive ex_get_start = Inr ex_after_first_drive"
  by (simp add: run_defs ex_run_defs ex_previous_paths_def ex_previous_deltas_def
      ex_after_first_drive_def step_defs)

lemma reset_marks_deleted_folders_example:
  "map_of (CollectionMap (collections ex_after_first_drive)) ''A'' = Some ex_tombstone_A \<and>
   folderPath ex_tombstone_A = None \<and>
   prevPath ex_tombstone_A = Some ''/drives/d1/root:/A'' \<and>
   state ex_tombstone_A = DeletedState"
proof -
  have h1: "drive_GetId ex_drive = Some ''d1''" and h2: "drive_GetName ex_drive = Some ''drive''"
    by (simp_all add: ex_drive_def)
  have h5: "distinct (map fst (index_or_zero ex_previous_paths ''d1''))"
    by (simp add: index_or_zero_def ex_previous_paths_def)
  note concl =
    reset_marks_deleted_folders [OF h1 h2 ex_first_drive_collected ex_first_drive h5,
      THEN conjunct1, rule_format, THEN conjunct1, rule_format, of "''A''" "''/drives/d1/root:/A''"]
  have "\<exists>pp col. FromDataLayerPath ex_pk ''/drives/d1/root:/A'' False = Inr pp \<and>
          map_of (CollectionMap (collections ex_after_first_drive)) ''A'' = Some col \<and>
          col = NewCollection ex_pk None (Some pp) ''d1'' (source ex_receiver) True \<and>
          folderPath col = None \<and> prevPath col = Some pp \<and> state col = DeletedState"
    by (rule concl) (simp_all add: index_or_zero_def ex_previous_paths_def ex_receiver_def)
  then show ?thesis
    by (auto simp: ex_pk_def ex_receiver_def ex_tombstone_A_def NewCollection_def StateOf_def)
qed

lemma ex_second_drive_collected:
  "collect_items ex_pk ex_pager_reset ''d2'' ''drive2''
       (index_or_zero ex_previous_paths ''d2'') (index_or_zero ex_previous_deltas ''d2'')
       (collections ex_after_first_drive) =
     Inr (\<lparr> URL = ''token2'', Reset = True \<rparr>, [(''d2-root'', ''/drives/d2/root:'')], {},
          collections ex_after_first_drive)"
  by (simp add: run_defs ex_run_defs ex_previous_paths_def ex_previous_deltas_def
      ex_after_first_drive_def step_defs)

lemma Get_drive_panics_example:
  "Get_drive ex_pk (collect_items ex_pk ex_pager_reset) ex_previous_deltas ex_previous_paths
      ex_drive2 ex_after_first_drive = Inl PanicNilDereference"
proof -
  have h1: "drive_GetId ex_drive2 = Some ''d2''"
    and h2: "drive_GetName ex_drive2 = Some ''drive2''"
    by (simp_all add: ex_drive2_def)
  have h5: "(''A'', ex_tombstone_A) \<in> set (CollectionMap (collections ex_after_first_drive))"
    by (simp add: ex_after_first_drive_def)
  have h6: "folderPath ex_tombstone_A = None"
    by (simp add: ex_tombstone_A_def)
  have h4: "Reset \<lparr> URL = ''token2'', Reset = True \<rparr>"
    by simp
  show ?thesis
    using Get_drive_panics
      [where collectItems = "collect_items ex_pk ex_pager_reset" and pk = ex_pk
         and prevDeltas = ex_previous_deltas and oldPathsByDriveID = ex_previous_paths
         and st = ex_after_first_drive,
       OF h1 h2 ex_second_drive_collected h4 h5 h6] .
qed

text \<open>
  \<^bold>\<open>C3.\<close> A run of \<open>Get\<close> at which the code does not do what the claim says. The previous
  backup knew folder \<open>A\<close> of drive \<open>d1\<close> and folder \<open>B\<close> of drive \<open>d2\<close>; both are gone, the
  server has invalidated both delta tokens, and the fresh enumeration of each drive
  reports its root only. Over \<open>d1\<close> alone \<open>Get\<close> returns, with a collection for \<open>A\<close> in state
  Deleted that carries the previous path and no current path. Over \<open>d1\<close> and \<open>d2\<close> it
  panics at \<open>d2\<close>, in the loop that fills \<open>modifiedPaths\<close>, on the collection it has made
  for \<open>A\<close>: \<open>B\<close> gets no collection and the run returns nothing.
\<close>

theorem Get_panics_at_second_reset_drive:
  "deserializeMetadata ex_previous = Inr (ex_previous_deltas, ex_previous_paths) \<and>
   map_of (index_or_zero ex_previous_paths ''d2'') ''B'' = Some ''/drives/d2/root:/B'' \<and>
   Get ex_pk (Inr [ex_drive]) (collect_items ex_pk ex_pager_reset) ex_previous ex_receiver =
     Inr ex_after_first_drive \<and>
   map_of (CollectionMap (collections ex_after_first_drive)) ''A'' = Some ex_tombstone_A \<and>
   Get ex_pk (Inr [ex_drive, ex_drive2]) (collect_items ex_pk ex_pager_reset) ex_previous
     ex_receiver = Inl PanicNilDereference"
  by (simp add: run_defs ex_run_defs ex_previous_paths_def ex_previous_deltas_def
      ex_after_first_drive_def step_defs)

text \<open>
  The same happens when the collection without a current path comes from the item
  stream: the token of \<open>d1\<close> is still valid and the server reports the deletion of \<open>A\<close>.
  With the drives in the other order the run returns, with a Deleted collection for
  either folder.
\<close>

lemma ex_deleted_in_stream:
  "Get ex_pk (Inr [ex_drive]) (collect_items ex_pk ex_pager_delete) ex_previous ex_receiver =
     Inr \<lparr> collections =
             ex_receiver\<lparr>CollectionMap := [(''A'', ex_tombstone_A\<lparr>doNotMergeItems := False\<rparr>)]\<rparr>,
           deltaURLs = [(''d1'', ''token2'')],
           folderPaths = [(''d1'', [(''d1-root'', ''/drives/d1/root:'')])],
           excludedItems = {} \<rparr>"
  by (simp add: run_defs ex_run_defs step_defs)

lemma ex_deleted_in_stream_then_reset:
  "Get ex_pk (Inr [ex_drive, ex_drive2]) (collect_items ex_pk ex_pager_delete) ex_previous
     ex_receiver = Inl PanicNilDereference"
  by (simp add: run_defs ex_run_defs step_defs)

lemma ex_reset_then_deleted_in_stream:
  "Get ex_pk (Inr [ex_drive2, ex_drive]) (collect_items ex_pk ex_pager_delete) ex_previous
     ex_receiver =
     Inr \<lparr> collections =
             ex_receiver\<lparr>CollectionMap :=
               [(''B'', ex_tombstone_B), (''A'', ex_tombstone_A\<lparr>doNotMergeItems := False\<rparr>)]\<rparr>,
           deltaURLs = [(''d2'', ''token2''), (''d1'', ''token2'')],
           folderPaths = [(''d2'', [(''d2-root'', ''/drives/d2/root:'')]),
                          (''d1'', [(''d1-root'', ''/drives/d1/root:'')])],
           excludedItems = {} \<rparr>"
  by (simp add: run_defs ex_run_defs step_defs)


section \<open>The details Builder\<close>

lemma folder_entries_ShortRef:
  "map ShortRef (folder_entries bp parent lfs) = map (builder_ShortRef bp) (ancestors parent)"
proof (induction bp parent lfs rule: folder_entries.induct)
  case (1 bp parent lfs)
  show ?case
  proof (cases "length parent > 0")
    case True
    with 1 show ?thesis
      by (subst folder_entries.simps, subst ancestors.simps) (simp add: Let_def)
  next
    case False
    then show ?thesis
      by (subst folder_entries.simps, subst ancestors.simps) simp
  qed
qed

lemma folder_entries_fresh:
  "fe \<in> set (folder_entries bp parent lfs) \<Longrightarrow> fresh fe"
proof (induction bp parent lfs rule: folder_entries.induct)
  case (1 bp parent lfs)
  show ?case
  proof (cases "length parent > 0")
    case True
    from "1.prems" have
      "fe \<in> set (folder_entries bp (Dir parent) (map_option Dir lfs)) \<or> fresh fe"
      by (subst (asm) folder_entries.simps) (auto simp: True Let_def fresh_def)
    with "1.IH" True show ?thesis by (auto simp: Let_def)
  next
    case False
    with "1.prems" show ?thesis
      by (subst (asm) folder_entries.simps) simp
  qed
qed

lemma ancestors_length: "q \<in> set (ancestors parent) \<Longrightarrow> length q \<le> length parent \<and> q \<noteq> []"
proof (induction parent rule: ancestors.induct)
  case (1 parent)
  show ?case
  proof (cases "length parent > 0")
    case True
    from "1.prems" have "q = parent \<or> q \<in> set (ancestors (Dir parent))"
      by (subst (asm) ancestors.simps) (simp add: True)
    with "1.IH" True show ?thesis by (auto simp: Dir_def)
  next
    case False
    with "1.prems" show ?thesis by (subst (asm) ancestors.simps) simp
  qed
qed

lemma distinct_ancestors: "distinct (ancestors parent)"
proof (induction parent rule: ancestors.induct)
  case (1 parent)
  show ?case
  proof (cases "length parent > 0")
    case True
    have "parent \<notin> set (ancestors (Dir parent))"
    proof
      assume "parent \<in> set (ancestors (Dir parent))"
      from ancestors_length [OF this] have "length parent \<le> length parent - 1"
        by (simp add: Dir_def)
      with True show False by linarith
    qed
    with "1.IH" True show ?thesis
      by (subst ancestors.simps) simp
  next
    case False
    then show ?thesis by (subst ancestors.simps) simp
  qed
qed

lemma set_ancestors: "set (ancestors parent) = {q. q \<noteq> [] \<and> prefix q parent}"
proof (induction parent rule: ancestors.induct)
  case (1 parent)
  show ?case
  proof (cases "length parent > 0")
    case True
    then have p: "parent = butlast parent @ [last parent]" by simp
    have "\<And>q. prefix q parent \<longleftrightarrow> q = parent \<or> prefix q (butlast parent)"
      by (subst p, subst prefix_snoc) (simp add: p [symmetric])
    with "1.IH" True show ?thesis
      by (subst ancestors.simps) (auto simp: Dir_def)
  next
    case False
    then show ?thesis by (subst ancestors.simps) auto
  qed
qed

lemma view_update:
  "view (AList.update k fe known) k' = (if k' = k then view [(k, fe)] k else view known k')"
  by (simp add: view_def update_conv')

lemma well_keyed_update:
  assumes "well_keyed known" "ShortRef fe = k" "Folder (Info fe) \<noteq> None"
  shows "well_keyed (AList.update k fe known)"
  using assms by (auto simp: well_keyed_def distinct_update update_conv')

lemma add_folders_view:
  assumes "well_keyed known" and "\<forall>fe \<in> set fs. fresh fe" and "distinct (map ShortRef fs)"
  shows "\<exists>known'. add_folders fs itemInfo updated known = Inr known' \<and> well_keyed known' \<and>
     keys known' = keys known \<union> ShortRef ` set fs \<and>
     (\<forall>k. view known' k =
        (if k \<in> ShortRef ` set fs then Some (bump itemInfo updated (view known k))
         else view known k))"
  using assms
proof (induction fs arbitrary: known)
  case Nil
  then show ?case by simp
next
  case (Cons folder fs)
  define k0 where "k0 = ShortRef folder"
  define folder1 where "folder1 = (case map_of known k0 of Some existing \<Rightarrow> existing | None \<Rightarrow> folder)"
  have sr1: "ShortRef folder1 = k0"
  proof (cases "map_of known k0")
    case None
    then show ?thesis by (simp add: folder1_def k0_def)
  next
    case (Some existing)
    with Cons.prems(1) have "ShortRef existing = k0"
      unfolding well_keyed_def by blast
    with Some show ?thesis by (simp add: folder1_def)
  qed
  from Cons.prems(2) have fr: "fresh folder" by simp
  have "\<exists>fi. Folder (Info folder1) = Some fi"
  proof (cases "map_of known k0")
    case None
    with fr show ?thesis by (auto simp: folder1_def fresh_def)
  next
    case (Some existing)
    with Cons.prems(1) have "Folder (Info existing) \<noteq> None"
      unfolding well_keyed_def by blast
    with Some show ?thesis by (auto simp: folder1_def)
  qed
  then obtain fi where fi: "Folder (Info folder1) = Some fi" by blast
  define fi2 where "fi2 = (if folder_Modified fi < Modified itemInfo
       then fi\<lparr>folder_Size := folder_Size fi + size_of itemInfo, folder_Modified := Modified itemInfo\<rparr>
       else fi\<lparr>folder_Size := folder_Size fi + size_of itemInfo\<rparr>)"
  define folder3 where "folder3 = (if updated
       then folder1\<lparr>Info := (Info folder1)\<lparr>Folder := Some fi2\<rparr>, Updated := True\<rparr>
       else folder1\<lparr>Info := (Info folder1)\<lparr>Folder := Some fi2\<rparr>\<rparr>)"
  have sr3: "ShortRef folder3 = k0" and f3: "Folder (Info folder3) = Some fi2"
    using sr1 by (simp_all add: folder3_def)
  have step: "add_folders (folder # fs) itemInfo updated known =
      add_folders fs itemInfo updated (AList.update k0 folder3 known)"
    using fi sr1
    by (simp add: Let_def folder1_def [symmetric] k0_def [symmetric] folder3_def fi2_def)
  have wk: "well_keyed (AList.update k0 folder3 known)"
    using well_keyed_update [OF Cons.prems(1) sr3] f3 by simp
  have v0: "view [(k0, folder3)] k0 = Some (bump itemInfo updated (view known k0))"
  proof (cases "map_of known k0")
    case None
    then have "folder1 = folder" by (simp add: folder1_def)
    with fr fi None show ?thesis
      by (auto simp: view_def bump_def folder3_def fi2_def fresh_def max_def)
  next
    case (Some existing)
    then have "folder1 = existing" by (simp add: folder1_def)
    with fi Some show ?thesis
      by (auto simp: view_def bump_def folder3_def fi2_def max_def)
  qed
  from Cons.prems(3) have notin: "k0 \<notin> ShortRef ` set fs" and dist: "distinct (map ShortRef fs)"
    by (auto simp: k0_def)
  from Cons.prems(2) have frs: "\<forall>fe \<in> set fs. fresh fe" by simp
  from Cons.IH [OF wk frs dist] obtain known' where
    run: "add_folders fs itemInfo updated (AList.update k0 folder3 known) = Inr known'" and
    wk': "well_keyed known'" and
    ks: "keys known' = keys (AList.update k0 folder3 known) \<union> ShortRef ` set fs" and
    vs: "\<forall>k. view known' k =
        (if k \<in> ShortRef ` set fs
         then Some (bump itemInfo updated (view (AList.update k0 folder3 known) k))
         else view (AList.update k0 folder3 known) k)"
    by blast
  have "keys known' = keys known \<union> ShortRef ` set (folder # fs)"
    using ks by (auto simp: keys_update k0_def)
  moreover have "\<forall>k. view known' k =
        (if k \<in> ShortRef ` set (folder # fs) then Some (bump itemInfo updated (view known k))
         else view known k)"
    using vs notin v0 by (auto simp: view_update k0_def [symmetric])
  ultimately show ?case
    using step run wk' by simp
qed

lemma beneath_snoc:
  "beneath q (its @ [it]) =
     beneath q its @ (if q \<in> set (ancestors (item_parent it)) then [it] else [])"
  by (simp add: beneath_def)

lemma set_all_folders_snoc:
  "set (all_folders (its @ [it])) = set (all_folders its) \<union> set (ancestors (item_parent it))"
  by (simp add: all_folders_def)

lemma beneath_empty: "q \<notin> set (all_folders its) \<Longrightarrow> beneath q its = []"
  by (auto simp: all_folders_def beneath_def filter_empty_conv)

lemma Max_insert_zero:
  assumes "finite S"
  shows "Max (insert z (insert t S)) = max (Max (insert z S)) (t :: int)"
proof -
  have "Max (insert t (insert z S)) = max t (Max (insert z S))"
    using assms by (intro Max_insert) simp_all
  then show ?thesis by (simp only: insert_commute [of z t] max.commute)
qed

lemma bump_expected:
  assumes "q \<in> set (ancestors (item_parent it))"
  shows "bump (item_info it) (item_updated it) (Some (expected q its)) = expected q (its @ [it])"
proof -
  have b: "beneath q (its @ [it]) = beneath q its @ [it]"
    using assms by (simp add: beneath_snoc)
  have m: "Max (insert zero_time (set (map (\<lambda>it. Modified (item_info it)) (beneath q its @ [it])))) =
      max (Max (insert zero_time (set (map (\<lambda>it. Modified (item_info it)) (beneath q its)))))
        (Modified (item_info it))"
    using Max_insert_zero [of "set (map (\<lambda>it. Modified (item_info it)) (beneath q its))"
        zero_time "Modified (item_info it)"]
    by simp
  show ?thesis
    unfolding bump_def expected_def b m by auto
qed

lemma bump_first:
  assumes "q \<in> set (ancestors (item_parent it))" and "beneath q its = []"
  shows "bump (item_info it) (item_updated it) None = expected q (its @ [it])"
  using assms
  by (simp add: bump_def expected_def beneath_snoc max.commute)

lemma expected_other:
  assumes "q \<notin> set (ancestors (item_parent it))"
  shows "expected q (its @ [it]) = expected q its"
  using assms by (simp add: expected_def beneath_snoc)

lemma add_items_append:
  "add_items bp (xs @ ys) b =
     (case add_items bp xs b of Inl e \<Rightarrow> Inl e | Inr b' \<Rightarrow> add_items bp ys b')"
  by (induction xs arbitrary: b) (auto split: sum.splits)

lemma view_None_keys:
  assumes "well_keyed known"
  shows "view known k = None \<longleftrightarrow> k \<notin> keys known"
proof (cases "map_of known k")
  case None
  then show ?thesis by (simp add: view_def map_of_None_keys [symmetric])
next
  case (Some fe)
  with assms have "Folder (Info fe) \<noteq> None"
    unfolding well_keyed_def by blast
  with Some show ?thesis
    by (auto simp: view_def map_of_None_keys [symmetric])
qed

lemma add_items_inv:
  assumes "inj_on (builder_ShortRef bp) (set (all_folders its))" and "knownFolders b0 = []"
  shows "\<exists>b. add_items bp its b0 = Inr b \<and> builder_d b = builder_d b0 \<and>
     well_keyed (knownFolders b) \<and>
     keys (knownFolders b) = builder_ShortRef bp ` set (all_folders its) \<and>
     (\<forall>q \<in> set (all_folders its).
        view (knownFolders b) (builder_ShortRef bp q) = Some (expected q its))"
  using assms(1)
proof (induction its rule: rev_induct)
  case Nil
  show ?case using assms(2) by (simp add: all_folders_def well_keyed_def)
next
  case (snoc it its)
  let ?sr = "builder_ShortRef bp"
  let ?anc = "ancestors (item_parent it)"
  have inj: "inj_on ?sr (set (all_folders its) \<union> set ?anc)"
    using snoc.prems by (simp add: set_all_folders_snoc)
  then have "inj_on ?sr (set (all_folders its))"
    by (rule inj_on_subset) simp
  from snoc.IH [OF this] obtain b where
    run: "add_items bp its b0 = Inr b" and d: "builder_d b = builder_d b0" and
    wk: "well_keyed (knownFolders b)" and
    ks: "keys (knownFolders b) = ?sr ` set (all_folders its)" and
    vs: "\<forall>q \<in> set (all_folders its). view (knownFolders b) (?sr q) = Some (expected q its)"
    by blast
  define fs where "fs = FolderEntriesForPath bp (item_parent it) (item_location it)"
  have srs: "map ShortRef fs = map ?sr ?anc"
    by (simp add: fs_def FolderEntriesForPath_def folder_entries_ShortRef)
  have fr: "\<forall>fe \<in> set fs. fresh fe"
    by (auto simp: fs_def FolderEntriesForPath_def dest: folder_entries_fresh)
  have "inj_on ?sr (set ?anc)"
    using inj by (rule inj_on_subset) simp
  then have dist: "distinct (map ShortRef fs)"
    by (simp add: srs distinct_map distinct_ancestors)
  have img: "ShortRef ` set fs = ?sr ` set ?anc"
    using srs by (metis list.set_map)
  from add_folders_view [OF wk fr dist, of "item_info it" "item_updated it"] obtain known' where
    af: "add_folders fs (item_info it) (item_updated it) (knownFolders b) = Inr known'" and
    wk': "well_keyed known'" and
    ks': "keys known' = keys (knownFolders b) \<union> ShortRef ` set fs" and
    vs': "\<forall>k. view known' k =
        (if k \<in> ShortRef ` set fs
         then Some (bump (item_info it) (item_updated it) (view (knownFolders b) k))
         else view (knownFolders b) k)"
    by blast
  have run': "add_items bp (its @ [it]) b0 = Inr (b\<lparr>knownFolders := known'\<rparr>)"
    using run af by (simp add: add_items_append AddFoldersForItem_def fs_def)
  have keys': "keys known' = ?sr ` set (all_folders (its @ [it]))"
    using ks' ks img by (auto simp: set_all_folders_snoc)
  have views: "\<forall>q \<in> set (all_folders (its @ [it])).
        view known' (?sr q) = Some (expected q (its @ [it]))"
  proof
    fix q
    assume q: "q \<in> set (all_folders (its @ [it]))"
    then have qin: "q \<in> set (all_folders its) \<union> set ?anc"
      by (simp add: set_all_folders_snoc)
    have mem: "?sr q \<in> ?sr ` set ?anc \<longleftrightarrow> q \<in> set ?anc"
      using inj qin by (auto simp: inj_on_def)
    show "view known' (?sr q) = Some (expected q (its @ [it]))"
    proof (cases "q \<in> set ?anc")
      case True
      show ?thesis
      proof (cases "q \<in> set (all_folders its)")
        case old: True
        with vs have "view (knownFolders b) (?sr q) = Some (expected q its)" by simp
        with vs' True mem img bump_expected [OF True, of its] show ?thesis by simp
      next
        case new: False
        have "?sr q \<notin> ?sr ` set (all_folders its)"
          using inj qin new by (auto simp: inj_on_def)
        then have "view (knownFolders b) (?sr q) = None"
          using wk ks by (simp add: view_None_keys)
        with vs' True mem img bump_first [OF True beneath_empty [OF new]] show ?thesis by simp
      qed
    next
      case False
      with qin have "q \<in> set (all_folders its)" by simp
      with vs have "view (knownFolders b) (?sr q) = Some (expected q its)" by simp
      with vs' False mem img expected_other [OF False, of its] show ?thesis by simp
    qed
  qed
  from run' d wk' keys' views show ?case by simp
qed

lemma write_folders_eq:
  "write_folders es entries = entries @ map (\<lambda>e. folder_to_entry (snd e)) es"
  by (induction es entries rule: write_folders.induct)
     (simp_all add: addFolder_def folder_to_entry_def)

lemma filter_key_unique:
  "distinct (map fst m) \<Longrightarrow> map_of m k = Some v \<Longrightarrow> filter (\<lambda>e. fst e = k) m = [(k, v)]"
proof (induction m)
  case Nil
  then show ?case by simp
next
  case (Cons e m)
  obtain k' v' where e: "e = (k', v')" by (cases e)
  show ?case
  proof (cases "k' = k")
    case True
    with Cons.prems have "v' = v" and "k \<notin> fst ` set m" by (auto simp: e)
    then have "filter (\<lambda>e. fst e = k) m = []"
      by (auto simp: filter_empty_conv)
    with True \<open>v' = v\<close> show ?thesis by (simp add: e)
  next
    case False
    with Cons show ?thesis by (simp add: e)
  qed
qed

lemma filter_ShortRef:
  assumes "well_keyed known" and "map_of known k = Some fe"
  shows "filter (\<lambda>e. entry_ShortRef e = k) (map (\<lambda>e. folder_to_entry (snd e)) known) =
     [folder_to_entry fe]"
proof -
  have "\<forall>e \<in> set known. ShortRef (snd e) = fst e"
    using assms(1) unfolding well_keyed_def by auto
  then have "filter (\<lambda>e. entry_ShortRef (folder_to_entry (snd e)) = k) known =
      filter (\<lambda>e. fst e = k) known"
    by (intro filter_cong) (simp_all add: folder_to_entry_def)
  also have "\<dots> = [(k, fe)]"
    using assms by (intro filter_key_unique) (simp_all add: well_keyed_def)
  finally show ?thesis
    by (simp add: filter_map comp_def)
qed

text \<open>
  \<^bold>\<open>C8.\<close> As amended. Items are merged through a Builder that starts without cached
  folders, and different ancestor folders of the items have different short refs. Then
  the merge succeeds, and for every ancestor folder implied by the path of an item the
  entries that \<open>Details\<close> appends hold exactly one entry with the folder's short ref; its
  size is the \<open>int64\<close> sum of the sizes of the items beneath the folder, its modified time
  is the latest of the zero time and the modified times of those items, and it is
  updated exactly when one of those items is.
\<close>

theorem folder_entries_aggregate:
  assumes "distinct (map (builder_ShortRef bp) (all_folders its))"
    and "knownFolders b0 = []"
    and "folder \<in> set (all_folders its)"
  shows "\<exists>b fs e fi.
     add_items bp its b0 = Inr b \<and>
     builder_d (Details b) = builder_d b0 @ fs \<and>
     filter (\<lambda>e. entry_ShortRef e = builder_ShortRef bp folder) fs = [e] \<and>
     Folder (entry_ItemInfo e) = Some fi \<and>
     folder_Size fi = sum_list (map (\<lambda>it. size_of (item_info it)) (beneath folder its)) \<and>
     folder_Modified fi =
       Max (insert zero_time (set (map (\<lambda>it. Modified (item_info it)) (beneath folder its)))) \<and>
     entry_Updated e = (\<exists>it \<in> set (beneath folder its). item_updated it)"
proof -
  have "inj_on (builder_ShortRef bp) (set (all_folders its))"
    using assms(1) by (simp add: distinct_map)
  from add_items_inv [OF this assms(2)] obtain b where
    run: "add_items bp its b0 = Inr b" and d: "builder_d b = builder_d b0" and
    wk: "well_keyed (knownFolders b)" and
    vs: "\<forall>q \<in> set (all_folders its).
        view (knownFolders b) (builder_ShortRef bp q) = Some (expected q its)"
    by blast
  from vs assms(3) have v: "view (knownFolders b) (builder_ShortRef bp folder) =
      Some (expected folder its)" by simp
  then obtain fe fi where
    fe: "map_of (knownFolders b) (builder_ShortRef bp folder) = Some fe" and
    fi: "Folder (Info fe) = Some fi" and
    ex: "(folder_Size fi, folder_Modified fi, Updated fe) = expected folder its"
    by (auto simp: view_def split: option.splits)
  let ?fs = "map (\<lambda>e. folder_to_entry (snd e)) (knownFolders b)"
  have 1: "builder_d (Details b) = builder_d b0 @ ?fs"
    by (simp add: Details_def write_folders_eq d)
  have 2: "filter (\<lambda>e. entry_ShortRef e = builder_ShortRef bp folder) ?fs = [folder_to_entry fe]"
    by (rule filter_ShortRef [OF wk fe])
  have 3: "Folder (entry_ItemInfo (folder_to_entry fe)) = Some fi"
    using fi by (simp add: folder_to_entry_def)
  have 4: "entry_Updated (folder_to_entry fe) = Updated fe"
    by (simp add: folder_to_entry_def)
  from ex have 5: "folder_Size fi = sum_list (map (\<lambda>it. size_of (item_info it)) (beneath folder its))"
    and 6: "folder_Modified fi =
       Max (insert zero_time (set (map (\<lambda>it. Modified (item_info it)) (beneath folder its))))"
    and 7: "Updated fe = (\<exists>it \<in> set (beneath folder its). item_updated it)"
    by (simp_all add: expected_def)
  from run 1 2 3 4 5 6 7 show ?thesis by metis
qed


lemma beneath_Nil: "beneath folder [] = []"
  by (simp add: beneath_def)

lemma beneath_Cons:
  "beneath folder (it # its) =
     (if folder \<in> set (ancestors (item_parent it)) then it # beneath folder its
      else beneath folder its)"
  by (simp add: beneath_def)

lemmas builder_defs = AddFoldersForItem_def FolderEntriesForPath_def folder_entries.simps
  locationRefOf_def Let_def Dir_def LastElem_def size_of_def Modified_def
  Details_def addFolder_def all_folders_def beneath_Nil beneath_Cons ancestors.simps
  zero_time_def

lemmas ex_builder_defs = ex_bp_def ex_info_def ex_items_def ex_old_items_def ex_builder_def
  ex_join_def ex_entry_def

theorem folder_entries_aggregate_witness:
  "distinct (map (builder_ShortRef ex_bp) (all_folders ex_items)) \<and>
   knownFolders ex_builder = [] \<and>
   [''t'', ''A''] \<in> set (all_folders ex_items) \<and>
   map_sum id
     (\<lambda>b. filter (\<lambda>e. entry_ShortRef e = builder_ShortRef ex_bp [''t'', ''A''])
            (builder_d (Details b)))
     (add_items ex_bp ex_items ex_builder) =
     Inr [ex_entry ''/t/A'' ''/t'' ''A'' 9 42 True] \<and>
   sum_list (map (\<lambda>it. size_of (item_info it)) (beneath [''t'', ''A''] ex_items)) = 42 \<and>
   Max (insert zero_time
          (set (map (\<lambda>it. Modified (item_info it)) (beneath [''t'', ''A''] ex_items)))) = 9"
  using folder_entries_aggregate [of ex_bp ex_items ex_builder "[''t'', ''A'']"]
  by (simp add: builder_defs ex_builder_defs)

text \<open>
  The claim as stated fails for two items in folder \<open>t\<close> with modified times one and two
  units before the zero time and with sizes \<open>2^63 - 1\<close> and \<open>1\<close>: the folder entry has the
  zero time, which is later than the latest modified time of the items, and its size, read
  as an \<open>int64\<close>, is \<open>- 2^63\<close>, not the sum \<open>2^63\<close> of the sizes.
\<close>

theorem folder_entries_counterexample:
  "map_sum id (\<lambda>b. builder_d (Details b)) (add_items ex_bp ex_old_items ex_builder) =
     Inr [ex_entry ''/t'' [] ''t'' 0 9223372036854775808 False] \<and>
   Max (set (map (\<lambda>it. Modified (item_info it)) (beneath [''t''] ex_old_items))) = - 1 \<and>
   sint (9223372036854775808 :: 64 word) = - 9223372036854775808 \<and>
   sum_list (map (\<lambda>it. sint (size_of (item_info it))) (beneath [''t''] ex_old_items)) =
     9223372036854775808"
  by (simp add: builder_defs ex_builder_defs)

end
